theory Spec2Isabelle
  imports Complex_Main "HOL-Library.Word" "HOL-Library.Log_Nat"
begin

unbundle bit_operations_syntax

section \<open>Data model (ui.h)\<close>

text \<open>
  The engine is C-style C++ built with MSVC. The embedding follows the source structs:
  \<^item> \<open>int\<close> fields (pixel sizes, indices, counters) are HOL integers; signed overflow is
    undefined in C and lies outside the model;
  \<^item> \<open>UI_Id\<close> is \<open>int32_t\<close> and colours are \<open>uint32_t\<close>: both are 32-bit words, so the hash
    arithmetic wraps around as the compiled code does;
  \<^item> a \<open>float\<close> is the rational number it denotes, and every \<open>float\<close> operation of the
    source (sum, quotient, product, conversion from \<open>int\<close>) is the exact result rounded to
    single precision by \<open>f32\<close>, to nearest with ties to even, as the compiled code
    computes it; infinities and NaN lie outside the model, as signed overflow does;
  \<^item> a fixed array with its element count (\<open>panels\<close>/\<open>panel_count\<close>,
    \<open>size_overrides\<close>/\<open>size_override_count\<close>, \<open>parent_stack\<close>/\<open>parent_stack_count\<close>,
    \<open>used_ids\<close> and \<open>used_id_counts\<close>/\<open>used_id_count\<close>, the render lists) is the list
    of its live elements, and the capacity tests of the source compare the length with
    the array size;
  \<^item> a C string is the list of its bytes before the terminating NUL; a pointer that may
    be null is an \<open>option\<close>;
  \<^item> tree links are indices into the panel array, with \<open>-1\<close> for "none", as in the source.
\<close>

type_synonym UI_Id = "32 word"

record UI_RectI =
  rx :: int
  ry :: int
  rw :: int
  rh :: int

record UI_Style =
  color :: "32 word"
  min_w :: int
  max_w :: int
  min_h :: int
  max_h :: int
  pref_w :: int
  pref_h :: int
  pad_l :: int
  pad_t :: int
  pad_r :: int
  pad_b :: int
  flex_grow :: rat
  flex_shrink :: rat
  flex_basis :: int
  direction :: int
  gap :: int
  resizable :: int
  resize_hitbox_padding :: int

record UI_Panel =
  uid :: UI_Id
  style :: UI_Style
  parent :: int
  first_child :: int
  last_child :: int
  next_sibling :: int
  rect :: UI_RectI
  label_text :: string
  label_color :: "32 word"
  is_label :: int

record UI_State =
  panels :: "UI_Panel list"

record UI_Rectangle =
  rect_left :: int
  rect_top :: int
  rect_right :: int
  rect_bottom :: int
  rect_color :: "32 word"

record UI_Text =
  text_x :: int
  text_y :: int
  text_w :: int
  text_h :: int
  text_color :: "32 word"
  text_str :: string
  font_size :: int
  align_h :: int
  align_v :: int

record UI_Render_List =
  rectangles :: "UI_Rectangle list"
  texts :: "UI_Text list"

datatype UI_Mouse_Button = UI_MOUSE_LEFT | UI_MOUSE_RIGHT | UI_MOUSE_MIDDLE

record UI_Input =
  mouse_x :: int
  mouse_y :: int
  mouse_x_prev :: int
  mouse_y_prev :: int
  mouse_dx :: int
  mouse_dy :: int
  mouse_down :: "UI_Mouse_Button \<Rightarrow> int"
  mouse_pressed :: "UI_Mouse_Button \<Rightarrow> int"
  mouse_released :: "UI_Mouse_Button \<Rightarrow> int"
  mouse_wheel_delta :: rat
  key_down :: "nat \<Rightarrow> int"
  key_pressed :: "nat \<Rightarrow> int"
  key_released :: "nat \<Rightarrow> int"
  char_buffer :: string
  last_char :: char
  ctrl :: int
  shift :: int
  alt :: int

record UI_Interaction =
  hot_widget :: UI_Id
  hot_widget_prev :: UI_Id
  active_widget :: UI_Id
  active_widget_prev :: UI_Id
  focused_widget :: UI_Id
  dragging_divider :: UI_Id
  drag_start_pos :: int
  drag_start_size_left :: int
  drag_start_size_right :: int
  resize_target_left_id :: UI_Id
  resize_target_right_id :: UI_Id

record UI_Size_Override =
  ov_panel_id :: UI_Id
  ov_pref_w :: int
  ov_pref_h :: int

record UI_Context =
  screen_w :: int
  screen_h :: int
  state :: UI_State
  parent_stack :: "int list"
  measure_text :: "(string \<Rightarrow> int \<Rightarrow> UI_RectI) option"
  used_ids :: "(UI_Id \<times> int) list"
  input :: UI_Input
  input_prev :: UI_Input
  interaction :: UI_Interaction
  size_overrides :: "UI_Size_Override list"
  frame_number :: int
  delta_time_ms :: rat
  current_fps :: int
  last_button_clicked :: string

definition INT32_MAX :: int where
  "INT32_MAX = 2147483647"

definition UI_MAX_PANELS :: nat where
  "UI_MAX_PANELS = 1024"

definition MAX_UI_RECTANGLES :: nat where
  "MAX_UI_RECTANGLES = 256"

definition MAX_UI_TEXTS :: nat where
  "MAX_UI_TEXTS = 256"

definition MAX_UI_TEXT_LENGTH :: nat where
  "MAX_UI_TEXT_LENGTH = 256"


section \<open>Identifier system\<close>

text \<open>
  \<open>int c = *str++\<close> reads a \<open>char\<close>, which is a signed byte for the MSVC target, so the
  byte is sign-extended to 32 bits before it is added.
\<close>

definition char_val :: "char \<Rightarrow> 32 word" where
  "char_val c = scast (of_char c :: 8 word)"

text \<open>The \<open>while\<close> loop of \<open>UI_HashString\<close>: \<open>hash = ((hash << 5) + hash) + c\<close>.\<close>

fun UI_HashString_loop :: "UI_Id \<Rightarrow> string \<Rightarrow> UI_Id" where
  "UI_HashString_loop hash [] = hash"
| "UI_HashString_loop hash (c # str) =
     UI_HashString_loop ((push_bit 5 hash + hash) + char_val c) str"

definition UI_HashString :: "string option \<Rightarrow> UI_Id" where
  "UI_HashString str = (case str of None \<Rightarrow> 0 | Some s \<Rightarrow> UI_HashString_loop 5381 s)"


text \<open>
  \<open>snprintf(unique_str, sizeof(unique_str), "%s##%d", str, count)\<close> with a buffer of
  \<open>MAX_UI_TEXT_LENGTH\<close> bytes: the formatted text, cut to at most 255 bytes.
\<close>

definition digit_char :: "nat \<Rightarrow> char" where
  "digit_char d = ''0123456789'' ! d"

fun show_nat :: "nat \<Rightarrow> string" where
  "show_nat n =
     (if n < 10 then [digit_char n]
      else show_nat (n div 10) @ [digit_char (n mod 10)])"

definition show_int :: "int \<Rightarrow> string" where
  "show_int i = (if i < 0 then CHR ''-'' # show_nat (nat (- i)) else show_nat (nat i))"

definition unique_str :: "string \<Rightarrow> int \<Rightarrow> string" where
  "unique_str str count = take (MAX_UI_TEXT_LENGTH - 1) (str @ ''##'' @ show_int count)"

text \<open>
  The search loop of \<open>UI_Generate_Id\<close> over \<open>used_ids\<close>: at the first entry equal to
  the base id its counter is incremented and the old counter value is returned.
\<close>

fun bump_used_id :: "(UI_Id \<times> int) list \<Rightarrow> UI_Id \<Rightarrow> ((UI_Id \<times> int) list \<times> int) option" where
  "bump_used_id [] base_id = None"
| "bump_used_id ((u, n) # us) base_id =
     (if u = base_id then Some ((u, n + 1) # us, n)
      else map_option (\<lambda>(us', k). ((u, n) # us', k)) (bump_used_id us base_id))"

text \<open>
  \<open>UI_Generate_Id\<close> takes a non-null name: a null name would reach \<open>snprintf\<close>'s
  \<open>%s\<close>, which is undefined.
\<close>

definition UI_Generate_Id :: "UI_Context \<Rightarrow> string \<Rightarrow> UI_Context \<times> UI_Id" where
  "UI_Generate_Id ctx str =
     (let base_id = UI_HashString (Some str) in
      case bump_used_id (used_ids ctx) base_id of
        Some (us, count) \<Rightarrow>
          (ctx\<lparr>used_ids := us\<rparr>, UI_HashString (Some (unique_str str count)))
      | None \<Rightarrow>
          ((if length (used_ids ctx) < 1024
            then ctx\<lparr>used_ids := used_ids ctx @ [(base_id, 0)]\<rparr>
            else ctx),
           base_id))"


section \<open>Input and frame start\<close>

definition UI_Input_NewFrame :: "UI_Context \<Rightarrow> UI_Context" where
  "UI_Input_NewFrame ui =
     (let inp = input ui; prv = input_prev ui in
      ui\<lparr>input := inp\<lparr>
        mouse_dx := mouse_x inp - mouse_x prv,
        mouse_dy := mouse_y inp - mouse_y prv,
        mouse_pressed := (\<lambda>i. if mouse_down inp i \<noteq> 0 \<and> mouse_down prv i = 0 then 1 else 0),
        mouse_released := (\<lambda>i. if mouse_down inp i = 0 \<and> mouse_down prv i \<noteq> 0 then 1 else 0),
        key_pressed := (\<lambda>i. if key_down inp i \<noteq> 0 \<and> key_down prv i = 0 then 1 else 0),
        key_released := (\<lambda>i. if key_down inp i = 0 \<and> key_down prv i \<noteq> 0 then 1 else 0),
        char_buffer := [],
        mouse_wheel_delta := 0,
        ctrl := key_down inp 17,
        shift := key_down inp 16,
        alt := key_down inp 18\<rparr>\<rparr>)"

definition UI_Is_Mouse_Released :: "UI_Context \<Rightarrow> UI_Mouse_Button \<Rightarrow> int" where
  "UI_Is_Mouse_Released ui button = mouse_released (input ui) button"

text \<open>
  \<open>UI_BeginFrame_WithTime\<close> also resets the caller's render list and makes the
  file-scope pointer \<open>g_render_list\<close> point to it: the model returns the reset list
  next to the context.
\<close>

definition UI_BeginFrame_WithTime :: "UI_Context \<Rightarrow> int \<Rightarrow> int \<Rightarrow> rat \<Rightarrow> UI_Context \<times> UI_Render_List" where
  "UI_BeginFrame_WithTime ui w h dt =
     (UI_Input_NewFrame
        (ui\<lparr>interaction := (interaction ui)\<lparr>
               hot_widget_prev := hot_widget (interaction ui),
               active_widget_prev := active_widget (interaction ui)\<rparr>,
            frame_number := frame_number ui + 1,
            delta_time_ms := dt,
            screen_w := w,
            screen_h := h,
            state := (state ui)\<lparr>panels := []\<rparr>,
            parent_stack := [],
            used_ids := []\<rparr>),
      \<lparr>rectangles = [], texts = []\<rparr>)"

definition UI_BeginFrame :: "UI_Context \<Rightarrow> int \<Rightarrow> int \<Rightarrow> UI_Context \<times> UI_Render_List" where
  "UI_BeginFrame ui w h = UI_BeginFrame_WithTime ui w h 0"


section \<open>Panel arena and builder\<close>

text \<open>
  Panel indices come from the parent stack and from the tree links. An index outside
  the live panels is undefined behaviour in C: in the model a read through \<open>panel_at\<close>
  fails, and a write through \<open>upd_panel\<close> leaves the arena as it is.
\<close>

definition panel_at :: "UI_State \<Rightarrow> int \<Rightarrow> UI_Panel option" where
  "panel_at s i =
     (if 0 \<le> i \<and> i < int (length (panels s)) then Some (panels s ! nat i) else None)"

definition upd_panel :: "UI_State \<Rightarrow> int \<Rightarrow> (UI_Panel \<Rightarrow> UI_Panel) \<Rightarrow> UI_State" where
  "upd_panel s i f =
     (if 0 \<le> i \<and> i < int (length (panels s))
      then s\<lparr>panels := (panels s)[nat i := f (panels s ! nat i)]\<rparr> else s)"

definition new_panel :: "UI_Id \<Rightarrow> UI_Panel" where
  "new_panel i =
     \<lparr>uid = i,
      style = \<lparr>color = 0xFF222222,
               min_w = 200, max_w = INT32_MAX,
               min_h = 200, max_h = INT32_MAX,
               pref_w = -1, pref_h = -1,
               pad_l = 0, pad_t = 0, pad_r = 0, pad_b = 0,
               flex_grow = 0, flex_shrink = 1, flex_basis = -1,
               direction = 0, gap = 0,
               resizable = 0, resize_hitbox_padding = 4\<rparr>,
      parent = -1, first_child = -1, last_child = -1, next_sibling = -1,
      rect = \<lparr>rx = 0, ry = 0, rw = 0, rh = 0\<rparr>,
      label_text = [], label_color = 0xFFFFFFFF, is_label = 0\<rparr>"

definition UI_NewPanel :: "UI_State \<Rightarrow> UI_Id \<Rightarrow> UI_State \<times> int" where
  "UI_NewPanel s i =
     (if length (panels s) \<ge> UI_MAX_PANELS then (s, -1)
      else (s\<lparr>panels := panels s @ [new_panel i]\<rparr>, int (length (panels s))))"

definition UI_AddChild :: "UI_State \<Rightarrow> int \<Rightarrow> int \<Rightarrow> UI_State" where
  "UI_AddChild s parent_idx child_idx =
     (let s1 = upd_panel s child_idx (\<lambda>c. c\<lparr>parent := parent_idx, next_sibling := -1\<rparr>) in
      case panel_at s1 parent_idx of
        None \<Rightarrow> s1
      | Some par \<Rightarrow>
          if first_child par = -1
          then upd_panel s1 parent_idx (\<lambda>q. q\<lparr>first_child := child_idx, last_child := child_idx\<rparr>)
          else upd_panel
                 (upd_panel s1 (last_child par) (\<lambda>q. q\<lparr>next_sibling := child_idx\<rparr>))
                 parent_idx (\<lambda>q. q\<lparr>last_child := child_idx\<rparr>))"

text \<open>
  The common tail of \<open>UI_Begin_Panel\<close> and \<open>UI_Begin_Panel_With_Id\<close>, after the panel
  was allocated: link it under the top of the parent stack, or make it a root with the
  viewport as its rect, and push it.
\<close>

definition link_and_push :: "UI_Context \<Rightarrow> int \<Rightarrow> UI_Context" where
  "link_and_push ctx panel_idx =
     (let parent_idx = (if length (parent_stack ctx) > 0 then last (parent_stack ctx) else -1);
          ctx1 = (if parent_idx \<ge> 0
                  then ctx\<lparr>state := UI_AddChild (state ctx) parent_idx panel_idx\<rparr>
                  else ctx\<lparr>state := upd_panel (state ctx) panel_idx
                         (\<lambda>q. q\<lparr>rect := \<lparr>rx = 0, ry = 0, rw = screen_w ctx, rh = screen_h ctx\<rparr>\<rparr>)\<rparr>)
      in if length (parent_stack ctx1) < 32
         then ctx1\<lparr>parent_stack := parent_stack ctx1 @ [panel_idx]\<rparr> else ctx1)"

definition UI_Begin_Panel :: "UI_Context \<Rightarrow> string \<Rightarrow> UI_Context" where
  "UI_Begin_Panel ctx id_str =
     (let (ctx1, i) = UI_Generate_Id ctx id_str;
          (s1, panel_idx) = UI_NewPanel (state ctx1) i
      in if panel_idx < 0 then ctx1
         else link_and_push (ctx1\<lparr>state := s1\<rparr>) panel_idx)"

definition UI_Begin_Panel_With_Id :: "UI_Context \<Rightarrow> UI_Id \<Rightarrow> UI_Context" where
  "UI_Begin_Panel_With_Id ctx i =
     (let (s1, panel_idx) = UI_NewPanel (state ctx) i
      in if panel_idx < 0 then ctx
         else link_and_push (ctx\<lparr>state := s1\<rparr>) panel_idx)"

definition UI_End_Panel :: "UI_Context \<Rightarrow> UI_Context" where
  "UI_End_Panel ctx =
     (if length (parent_stack ctx) > 0
      then ctx\<lparr>parent_stack := butlast (parent_stack ctx)\<rparr> else ctx)"

text \<open>The style setters write to the panel on top of the parent stack.\<close>

definition set_top_style :: "UI_Context \<Rightarrow> (UI_Style \<Rightarrow> UI_Style) \<Rightarrow> UI_Context" where
  "set_top_style ui f =
     (if length (parent_stack ui) = 0 then ui
      else ui\<lparr>state := upd_panel (state ui) (last (parent_stack ui))
                 (\<lambda>q. q\<lparr>style := f (style q)\<rparr>)\<rparr>)"

definition UI_Panel_Set_Color :: "UI_Context \<Rightarrow> 32 word \<Rightarrow> UI_Context" where
  "UI_Panel_Set_Color ui c = set_top_style ui (\<lambda>st. st\<lparr>color := c\<rparr>)"

definition UI_Panel_Set_Size :: "UI_Context \<Rightarrow> int \<Rightarrow> int \<Rightarrow> UI_Context" where
  "UI_Panel_Set_Size ui width height =
     set_top_style ui (\<lambda>st. st\<lparr>pref_w := width, pref_h := height\<rparr>)"

definition UI_Panel_Set_Padding :: "UI_Context \<Rightarrow> int \<Rightarrow> int \<Rightarrow> int \<Rightarrow> int \<Rightarrow> UI_Context" where
  "UI_Panel_Set_Padding ui l t r b =
     set_top_style ui (\<lambda>st. st\<lparr>pad_l := l, pad_t := t, pad_r := r, pad_b := b\<rparr>)"

definition UI_Panel_Set_Direction :: "UI_Context \<Rightarrow> int \<Rightarrow> UI_Context" where
  "UI_Panel_Set_Direction ui dir = set_top_style ui (\<lambda>st. st\<lparr>direction := dir\<rparr>)"

definition UI_Panel_Set_Gap :: "UI_Context \<Rightarrow> int \<Rightarrow> UI_Context" where
  "UI_Panel_Set_Gap ui g = set_top_style ui (\<lambda>st. st\<lparr>gap := g\<rparr>)"

definition UI_Panel_Set_Grow :: "UI_Context \<Rightarrow> rat \<Rightarrow> UI_Context" where
  "UI_Panel_Set_Grow ui grow = set_top_style ui (\<lambda>st. st\<lparr>flex_grow := grow\<rparr>)"

definition UI_Panel_Set_Padding_Uniform :: "UI_Context \<Rightarrow> int \<Rightarrow> UI_Context" where
  "UI_Panel_Set_Padding_Uniform ui padding = UI_Panel_Set_Padding ui padding padding padding padding"


section \<open>Size-override store\<close>

text \<open>
  The search loop of \<open>UI_Set_Size_Override\<close>: the first entry with the given id is
  updated in the dimensions passed as non-negative; \<open>None\<close> when no entry matches.
\<close>

fun update_override :: "UI_Size_Override list \<Rightarrow> UI_Id \<Rightarrow> int \<Rightarrow> int \<Rightarrow> UI_Size_Override list option" where
  "update_override [] pid pw ph = None"
| "update_override (e # es) pid pw ph =
     (if ov_panel_id e = pid
      then Some (e\<lparr>ov_pref_w := (if pw \<ge> 0 then pw else ov_pref_w e),
                   ov_pref_h := (if ph \<ge> 0 then ph else ov_pref_h e)\<rparr> # es)
      else map_option (Cons e) (update_override es pid pw ph))"

definition UI_Set_Size_Override :: "UI_Context \<Rightarrow> UI_Id \<Rightarrow> int \<Rightarrow> int \<Rightarrow> UI_Context" where
  "UI_Set_Size_Override ui pid pw ph =
     (case update_override (size_overrides ui) pid pw ph of
        Some es \<Rightarrow> ui\<lparr>size_overrides := es\<rparr>
      | None \<Rightarrow>
          if length (size_overrides ui) < 32
          then ui\<lparr>size_overrides := size_overrides ui @
                  [\<lparr>ov_panel_id = pid, ov_pref_w = pw, ov_pref_h = ph\<rparr>]\<rparr>
          else ui)"

fun find_override :: "UI_Size_Override list \<Rightarrow> UI_Id \<Rightarrow> UI_Size_Override option" where
  "find_override [] pid = None"
| "find_override (e # es) pid = (if ov_panel_id e = pid then Some e else find_override es pid)"

definition UI_Get_Size_Override_W :: "UI_Context \<Rightarrow> UI_Id \<Rightarrow> int" where
  "UI_Get_Size_Override_W ui pid =
     (case find_override (size_overrides ui) pid of Some e \<Rightarrow> ov_pref_w e | None \<Rightarrow> -1)"

definition UI_Get_Size_Override_H :: "UI_Context \<Rightarrow> UI_Id \<Rightarrow> int" where
  "UI_Get_Size_Override_H ui pid =
     (case find_override (size_overrides ui) pid of Some e \<Rightarrow> ov_pref_h e | None \<Rightarrow> -1)"


definition UI_Panel_Set_Resizable :: "UI_Context \<Rightarrow> int \<Rightarrow> int \<Rightarrow> UI_Context" where
  "UI_Panel_Set_Resizable ui r hitbox_padding =
     set_top_style ui (\<lambda>st. st\<lparr>resizable := r, resize_hitbox_padding := hitbox_padding\<rparr>)"

definition UI_Panel_Resizable ::
  "UI_Context \<Rightarrow> string \<Rightarrow> int \<Rightarrow> int \<Rightarrow> int \<Rightarrow> int \<Rightarrow> int \<Rightarrow> 32 word \<Rightarrow> UI_Context" where
  "UI_Panel_Resizable ui id_str dir default_w default_h padding g c =
     (let ui1 = UI_Begin_Panel ui id_str;
          ui2 = UI_Panel_Set_Direction ui1 dir;
          panel_id = UI_HashString (Some id_str);
          w0 = UI_Get_Size_Override_W ui2 panel_id;
          h0 = UI_Get_Size_Override_H ui2 panel_id;
          w = (if w0 < 0 then default_w else w0);
          h = (if h0 < 0 then default_h else h0);
          wants_flex_w = (default_w = -2);
          wants_flex_h = (default_h = -2);
          ui3 = (if w = -2 \<or> (w < 0 \<and> wants_flex_w)
                 then UI_Panel_Set_Grow
                        (if h \<ge> 0 \<and> h \<noteq> -2 then UI_Panel_Set_Size ui2 (-1) h else ui2) 1
                 else if h = -2 \<or> (h < 0 \<and> wants_flex_h)
                 then UI_Panel_Set_Grow
                        (if w \<ge> 0 then UI_Panel_Set_Size ui2 w (-1) else ui2) 1
                 else if w \<ge> 0 \<or> h \<ge> 0 then UI_Panel_Set_Size ui2 w h
                 else ui2);
          ui4 = (if padding > 0 then UI_Panel_Set_Padding_Uniform ui3 padding else ui3);
          ui5 = (if g \<ge> 0 then UI_Panel_Set_Gap ui4 g else ui4)
      in if c \<noteq> 0 then UI_Panel_Set_Color ui5 c else ui5)"

definition UI_Label :: "UI_Context \<Rightarrow> string option \<Rightarrow> 32 word \<Rightarrow> UI_Context" where
  "UI_Label ui text_opt c =
     (case (text_opt, measure_text ui) of
        (Some t, Some m) \<Rightarrow>
          (let text_size = m t 14;
               ui1 = UI_Begin_Panel ui t;
               ui2 = UI_Panel_Set_Size ui1 (rw text_size + 2) (rh text_size);
               ui3 = (if length (parent_stack ui2) > 0
                      then ui2\<lparr>state := upd_panel (state ui2) (last (parent_stack ui2))
                             (\<lambda>q. q\<lparr>style := (style q)\<lparr>color := 0\<rparr>,
                                     is_label := 1,
                                     label_color := c,
                                     label_text := take (MAX_UI_TEXT_LENGTH - 1) t\<rparr>)\<rparr>
                      else ui2)
           in UI_End_Panel ui3)
      | _ \<Rightarrow> ui)"

text \<open>\<open>UI_Button\<close> returns the updated context and the \<open>clicked\<close> flag.\<close>

definition UI_Button :: "UI_Context \<Rightarrow> string \<Rightarrow> UI_Context \<times> int" where
  "UI_Button ui t =
     (let (ui1, i) = UI_Generate_Id ui t;
          is_hot = (hot_widget (interaction ui1) = i);
          is_active = (active_widget_prev (interaction ui1) = i);
          clicked = (is_active \<and> UI_Is_Mouse_Released ui1 UI_MOUSE_LEFT \<noteq> 0 \<and> is_hot);
          ui2 = (if clicked
                 then ui1\<lparr>last_button_clicked := take (MAX_UI_TEXT_LENGTH - 1) t\<rparr> else ui1);
          bg_color = (if is_active then 0xFF1A5FB4 else if is_hot then 0xFF3584E4 else 0xFF2A2A2E);
          text_color = (if is_active then 0xFFFFFFFF else if is_hot then 0xFFFFFFFF else 0xFFAAAAAA);
          ui3 = UI_Begin_Panel_With_Id ui2 i;
          ui4 = UI_Panel_Set_Size ui3 (-1) 30;
          ui5 = UI_Panel_Set_Color ui4 bg_color;
          ui6 = UI_Panel_Set_Padding ui5 8 4 8 4;
          ui7 = UI_Panel_Set_Direction ui6 0;
          ui8 = UI_Label ui7 (Some t) text_color
      in (UI_End_Panel ui8, if clicked then 1 else 0))"


section \<open>Single-precision arithmetic\<close>

text \<open>
  IEEE 754 binary32, the \<open>float\<close> of MSVC: 24 significant bits, exponents from \<open>-126\<close>,
  subnormal numbers below. \<open>f32_exponent q\<close> is the \<open>e\<close> with \<open>2^e \<le> |q| < 2^(e+1)\<close>, read
  off the bit length of the integer part of \<open>|q|\<close> or of \<open>1 / |q|\<close>. \<open>f32 q\<close> is the
  multiple of the unit in the last place that is nearest to \<open>q\<close>, the even one of two
  that are equally near.
\<close>

definition f32_exponent :: "rat \<Rightarrow> int" where
  "f32_exponent q =
     (let a = \<bar>q\<bar> in
      if a \<ge> 1 then bitlen \<lfloor>a\<rfloor> - 1
      else (let k = bitlen \<lfloor>1 / a\<rfloor> - 1 in if a * 2 ^ nat k = 1 then - k else - k - 1))"

definition round_to_even :: "rat \<Rightarrow> int" where
  "round_to_even x =
     (let n = \<lfloor>x\<rfloor>; r = x - of_int n
      in if r < 1 / 2 then n else if r > 1 / 2 then n + 1 else if even n then n else n + 1)"

definition f32 :: "rat \<Rightarrow> rat" where
  "f32 q =
     (if q = 0 then 0
      else (let e = max (f32_exponent q - 23) (- 149)
            in of_int (round_to_even (q / 2 powi e)) * 2 powi e))"


section \<open>Layout engine\<close>

text \<open>
  The loops \<open>for (c = p->first_child; c != -1; c = s->panels[c].next_sibling)\<close> follow
  links stored in the arena, so they end only when the links reach \<open>-1\<close>. Each
  traversal carries a step budget: a traversal through \<open>n\<close> live panels that has not
  ended after visiting each panel once per loop is caught in a cycle, where the C code
  does not return; the model then yields \<open>None\<close>, as it does on an index outside the
  live panels.

  \<open>float t = child->style.flex_grow / grow_sum; (int)(t * (float)remaining)\<close>: the
  quotient, the conversion of \<open>remaining\<close> and the product are each rounded to single
  precision, and the conversion to \<open>int\<close> truncates toward zero.
\<close>

definition trunc_to_int :: "rat \<Rightarrow> int" where
  "trunc_to_int q = (if q \<ge> 0 then \<lfloor>q\<rfloor> else \<lceil>q\<rceil>)"

definition flex_share :: "rat \<Rightarrow> rat \<Rightarrow> int \<Rightarrow> int" where
  "flex_share grow grow_sum remaining =
     (let t = f32 (grow / grow_sum)
      in trunc_to_int (f32 (t * f32 (of_int remaining))))"

text \<open>
  The first pass of \<open>UI_LayoutRow\<close> and \<open>UI_LayoutColumn\<close>; \<open>pref\<close> is \<open>pref_w\<close> for a row
  and \<open>pref_h\<close> for a column. The accumulator is \<open>(child_count, fixed_sum, grow_sum)\<close>;
  \<open>grow_sum += child->style.flex_grow\<close> is a \<open>float\<close> sum.
\<close>

fun measure_children ::
  "(UI_Style \<Rightarrow> int) \<Rightarrow> nat \<Rightarrow> UI_State \<Rightarrow> int \<Rightarrow> int \<times> int \<times> rat \<Rightarrow> (int \<times> int \<times> rat) option" where
  "measure_children pref 0 s c acc = (if c = -1 then Some acc else None)"
| "measure_children pref (Suc n) s c acc =
     (if c = -1 then Some acc
      else case panel_at s c of
        None \<Rightarrow> None
      | Some child \<Rightarrow>
          (case acc of (child_count, fixed_sum, grow_sum) \<Rightarrow>
             measure_children pref n s (next_sibling child)
               (child_count + 1,
                fixed_sum + (if pref (style child) \<ge> 0 then pref (style child) else 0),
                (if flex_grow (style child) > 0 then f32 (grow_sum + flex_grow (style child))
                 else grow_sum))))"

text \<open>
  The main-axis size the second pass gives a child: its fixed contribution, plus its
  share of the remaining space when the child grows and the grow sum is positive.
\<close>

definition child_main_size :: "(UI_Style \<Rightarrow> int) \<Rightarrow> rat \<Rightarrow> int \<Rightarrow> UI_Panel \<Rightarrow> int" where
  "child_main_size pref grow_sum remaining child =
     (let w = (if pref (style child) \<ge> 0 then pref (style child) else 0)
      in if flex_grow (style child) > 0 \<and> grow_sum > 0
         then w + flex_share (flex_grow (style child)) grow_sum remaining
         else w)"


text \<open>
  The second pass; \<open>mk cursor size\<close> is the rect given to a child: for a row
  \<open>{cursor_x, y0, w, ch}\<close>, for a column \<open>{x0, cursor_y, cw, h}\<close>.
\<close>

fun place_children ::
  "(UI_Style \<Rightarrow> int) \<Rightarrow> (int \<Rightarrow> int \<Rightarrow> UI_RectI) \<Rightarrow> nat \<Rightarrow> UI_State \<Rightarrow> int \<Rightarrow> rat \<Rightarrow> int \<Rightarrow>
   int \<Rightarrow> int \<Rightarrow> UI_State option" where
  "place_children pref mk 0 s g grow_sum remaining c cursor = (if c = -1 then Some s else None)"
| "place_children pref mk (Suc n) s g grow_sum remaining c cursor =
     (if c = -1 then Some s
      else case panel_at s c of
        None \<Rightarrow> None
      | Some child \<Rightarrow>
          (let sz = child_main_size pref grow_sum remaining child
           in place_children pref mk n (upd_panel s c (\<lambda>q. q\<lparr>rect := mk cursor sz\<rparr>))
                g grow_sum remaining (next_sibling child) (cursor + sz + g)))"

definition UI_LayoutRow :: "UI_State \<Rightarrow> int \<Rightarrow> UI_State option" where
  "UI_LayoutRow s panel_idx =
     (case panel_at s panel_idx of
        None \<Rightarrow> None
      | Some p \<Rightarrow>
          (let x0 = rx (rect p) + pad_l (style p);
               y0 = ry (rect p) + pad_t (style p);
               cw0 = rw (rect p) - (pad_l (style p) + pad_r (style p));
               ch0 = rh (rect p) - (pad_t (style p) + pad_b (style p));
               cw = (if cw0 < 0 then 0 else cw0);
               ch = (if ch0 < 0 then 0 else ch0)
           in case measure_children pref_w (length (panels s)) s (first_child p) (0, 0, 0) of
                None \<Rightarrow> None
              | Some (child_count, fixed_sum, grow_sum) \<Rightarrow>
                  (let gaps_total = (if child_count > 1 then gap (style p) * (child_count - 1) else 0);
                       remaining0 = cw - fixed_sum - gaps_total;
                       remaining = (if remaining0 < 0 then 0 else remaining0)
                   in place_children pref_w (\<lambda>cursor_x w. \<lparr>rx = cursor_x, ry = y0, rw = w, rh = ch\<rparr>)
                        (length (panels s)) s (gap (style p)) grow_sum remaining
                        (first_child p) x0)))"

definition UI_LayoutColumn :: "UI_State \<Rightarrow> int \<Rightarrow> UI_State option" where
  "UI_LayoutColumn s panel_idx =
     (case panel_at s panel_idx of
        None \<Rightarrow> None
      | Some p \<Rightarrow>
          (let x0 = rx (rect p) + pad_l (style p);
               y0 = ry (rect p) + pad_t (style p);
               cw0 = rw (rect p) - (pad_l (style p) + pad_r (style p));
               ch0 = rh (rect p) - (pad_t (style p) + pad_b (style p));
               cw = (if cw0 < 0 then 0 else cw0);
               ch = (if ch0 < 0 then 0 else ch0)
           in case measure_children pref_h (length (panels s)) s (first_child p) (0, 0, 0) of
                None \<Rightarrow> None
              | Some (child_count, fixed_sum, grow_sum) \<Rightarrow>
                  (let gaps_total = (if child_count > 1 then gap (style p) * (child_count - 1) else 0);
                       remaining0 = ch - fixed_sum - gaps_total;
                       remaining = (if remaining0 < 0 then 0 else remaining0)
                   in place_children pref_h (\<lambda>cursor_y h. \<lparr>rx = x0, ry = cursor_y, rw = cw, rh = h\<rparr>)
                        (length (panels s)) s (gap (style p)) grow_sum remaining
                        (first_child p) y0)))"

text \<open>
  \<open>UI_LayoutPanelTree\<close>: \<open>layout_tree\<close> is the function body, \<open>layout_children\<close> its
  loop over the children, which calls back into it.
\<close>

fun layout_tree :: "nat \<Rightarrow> UI_State \<Rightarrow> int \<Rightarrow> UI_State option"
  and layout_children :: "nat \<Rightarrow> UI_State \<Rightarrow> int \<Rightarrow> UI_State option" where
  "layout_tree 0 s panel_idx = None"
| "layout_tree (Suc n) s panel_idx =
     (case panel_at s panel_idx of
        None \<Rightarrow> None
      | Some p \<Rightarrow>
          if first_child p \<noteq> -1
          then (case (if direction (style p) = 0 then UI_LayoutRow s panel_idx
                      else if direction (style p) = 1 then UI_LayoutColumn s panel_idx
                      else Some s) of
                  None \<Rightarrow> None
                | Some s1 \<Rightarrow> layout_children n s1 (first_child p))
          else Some s)"
| "layout_children 0 s c = (if c = -1 then Some s else None)"
| "layout_children (Suc n) s c =
     (if c = -1 then Some s
      else case layout_tree n s c of
        None \<Rightarrow> None
      | Some s1 \<Rightarrow>
          (case panel_at s1 c of
             None \<Rightarrow> None
           | Some child \<Rightarrow> layout_children n s1 (next_sibling child)))"

definition UI_LayoutPanelTree :: "UI_State \<Rightarrow> int \<Rightarrow> UI_State option" where
  "UI_LayoutPanelTree s panel_idx = layout_tree (2 * length (panels s)) s panel_idx"




section \<open>Well-formed panel trees\<close>

text \<open>
  The tree the builder leaves in the arena: panels are allocated in the order of the
  \<open>UI_Begin_Panel\<close> calls and linked by \<open>UI_AddChild\<close>, so every link of a panel leads
  to a panel allocated later, a first child names the panel as its parent, and a next
  sibling has the same parent; a parent was allocated earlier.
\<close>

definition tree_ok :: "UI_State \<Rightarrow> bool" where
  "tree_ok s \<longleftrightarrow>
     (\<forall>k < length (panels s).
        let p = panels s ! k; i = int k in
          parent p < i \<and>
          (first_child p = -1 \<or>
             (i < first_child p \<and> map_option parent (panel_at s (first_child p)) = Some i)) \<and>
          (next_sibling p = -1 \<or>
             (i < next_sibling p \<and>
              map_option parent (panel_at s (next_sibling p)) = Some (parent p))))"

text \<open>
  What the layout leaves untouched: the panels with their rects blanked. The relation
  of a panel index to the index in its \<open>parent\<close> field.
\<close>

definition shape :: "UI_State \<Rightarrow> UI_Panel list" where
  "shape s = map (\<lambda>p. p\<lparr>rect := \<lparr>rx = 0, ry = 0, rw = 0, rh = 0\<rparr>\<rparr>) (panels s)"

definition parent_rel :: "UI_State \<Rightarrow> (int \<times> int) set" where
  "parent_rel s = {(i, j). \<exists>p. panel_at s i = Some p \<and> parent p = j}"

text \<open>
  What the builder maintains besides \<open>tree_ok\<close>: the \<open>last_child\<close> of a panel with
  children names one of its children, and every index on the parent stack is a live
  panel. \<open>links\<close> are the four tree links of a panel.
\<close>

definition last_ok :: "UI_State \<Rightarrow> bool" where
  "last_ok s \<longleftrightarrow>
     (\<forall>k < length (panels s).
        let p = panels s ! k in
          first_child p = -1 \<or> map_option parent (panel_at s (last_child p)) = Some (int k))"

definition stack_ok :: "UI_Context \<Rightarrow> bool" where
  "stack_ok ctx \<longleftrightarrow> (\<forall>i \<in> set (parent_stack ctx). panel_at (state ctx) i \<noteq> None)"

definition builder_ok :: "UI_Context \<Rightarrow> bool" where
  "builder_ok ctx \<longleftrightarrow> tree_ok (state ctx) \<and> last_ok (state ctx) \<and> stack_ok ctx"

definition links :: "UI_Panel \<Rightarrow> int \<times> int \<times> int \<times> int" where
  "links p = (parent p, first_child p, last_child p, next_sibling p)"

text \<open>
  The contexts a frame goes through while it is built: the frame start followed by any
  sequence of builder calls. The setters are instances of \<open>set_top_style\<close>, as is the
  style assignment of \<open>UI_Begin_Panel_Ex\<close>; \<open>UI_BeginPanel\<close>, \<open>UI_Panel_Resizable\<close> and
  \<open>UI_Divider_Ex\<close> are sequences of the calls listed here.
\<close>

inductive built :: "UI_Context \<Rightarrow> bool" where
  frame: "built (fst (UI_BeginFrame_WithTime ui w h dt))"
| begin_panel: "built ctx \<Longrightarrow> built (UI_Begin_Panel ctx id_str)"
| begin_panel_with_id: "built ctx \<Longrightarrow> built (UI_Begin_Panel_With_Id ctx i)"
| end_panel: "built ctx \<Longrightarrow> built (UI_End_Panel ctx)"
| set_style: "built ctx \<Longrightarrow> built (set_top_style ctx f)"
| label: "built ctx \<Longrightarrow> built (UI_Label ctx text_opt c)"
| button: "built ctx \<Longrightarrow> built (fst (UI_Button ctx t))"


text \<open>
  The scheme common to \<open>UI_LayoutRow\<close> and \<open>UI_LayoutColumn\<close>, which differ in the
  preferred size they read, the rect they give a child, the content size and the start
  of the cursor.
\<close>

definition layout_axis ::
  "(UI_Style \<Rightarrow> int) \<Rightarrow> (UI_Panel \<Rightarrow> int \<Rightarrow> int \<Rightarrow> UI_RectI) \<Rightarrow> (UI_Panel \<Rightarrow> int) \<Rightarrow>
   (UI_Panel \<Rightarrow> int) \<Rightarrow> UI_State \<Rightarrow> int \<Rightarrow> UI_State option" where
  "layout_axis pref mk content_size start s panel_idx =
     (case panel_at s panel_idx of
        None \<Rightarrow> None
      | Some p \<Rightarrow>
          (case measure_children pref (length (panels s)) s (first_child p) (0, 0, 0) of
             None \<Rightarrow> None
           | Some (child_count, fixed_sum, grow_sum) \<Rightarrow>
               (let gaps_total = (if child_count > 1 then gap (style p) * (child_count - 1) else 0);
                    remaining0 = content_size p - fixed_sum - gaps_total;
                    remaining = (if remaining0 < 0 then 0 else remaining0)
                in place_children pref (mk p) (length (panels s)) s (gap (style p)) grow_sum
                     remaining (first_child p) (start p))))"

definition row_rect :: "UI_Panel \<Rightarrow> int \<Rightarrow> int \<Rightarrow> UI_RectI" where
  "row_rect p cursor_x w =
     \<lparr>rx = cursor_x, ry = ry (rect p) + pad_t (style p), rw = w,
      rh = (if rh (rect p) - (pad_t (style p) + pad_b (style p)) < 0 then 0
            else rh (rect p) - (pad_t (style p) + pad_b (style p)))\<rparr>"

definition column_rect :: "UI_Panel \<Rightarrow> int \<Rightarrow> int \<Rightarrow> UI_RectI" where
  "column_rect p cursor_y h =
     \<lparr>rx = rx (rect p) + pad_l (style p), ry = cursor_y,
      rw = (if rw (rect p) - (pad_l (style p) + pad_r (style p)) < 0 then 0
            else rw (rect p) - (pad_l (style p) + pad_r (style p))),
      rh = h\<rparr>"

definition content_w :: "UI_Panel \<Rightarrow> int" where
  "content_w p =
     (if rw (rect p) - (pad_l (style p) + pad_r (style p)) < 0 then 0
      else rw (rect p) - (pad_l (style p) + pad_r (style p)))"

definition content_h :: "UI_Panel \<Rightarrow> int" where
  "content_h p =
     (if rh (rect p) - (pad_t (style p) + pad_b (style p)) < 0 then 0
      else rh (rect p) - (pad_t (style p) + pad_b (style p)))"

section \<open>Divider resize\<close>

fun find_panel_from :: "UI_Panel list \<Rightarrow> int \<Rightarrow> UI_Id \<Rightarrow> int" where
  "find_panel_from [] i pid = -1"
| "find_panel_from (p # ps) i pid = (if uid p = pid then i else find_panel_from ps (i + 1) pid)"

definition UI_Find_Panel_By_Id :: "UI_State \<Rightarrow> UI_Id \<Rightarrow> int" where
  "UI_Find_Panel_By_Id s pid = find_panel_from (panels s) 0 pid"

text \<open>
  The functions below index the arena directly, as the source does, with indices that
  were found by \<open>UI_Find_Panel_By_Id\<close> or read from a \<open>parent\<close> link, after the source's
  tests for a negative index.
\<close>

definition UI_Get_Resize_Direction :: "UI_State \<Rightarrow> int \<Rightarrow> int" where
  "UI_Get_Resize_Direction s panel_idx =
     (let p = panels s ! nat panel_idx in
      if parent p < 0 then -1
      else direction (style (panels s ! nat (parent p))))"

text \<open>
  The two constraint blocks of \<open>UI_Update_Divider_Resize\<close>, on the pair
  \<open>(new_left_size, new_right_size)\<close>; \<open>lo\<close> and \<open>hi\<close> are the panel's \<open>min\<close> and \<open>max\<close>
  for the resize axis. The recomputed \<open>delta\<close> is used only inside each block.
\<close>

definition apply_left_constraints :: "UI_Interaction \<Rightarrow> int \<Rightarrow> int \<Rightarrow> int \<times> int \<Rightarrow> int \<times> int" where
  "apply_left_constraints ia lo hi sizes =
     (case sizes of (new_left_size, new_right_size) \<Rightarrow>
        if new_left_size < lo
        then (let delta = lo - drag_start_size_left ia
              in (lo, drag_start_size_right ia - delta))
        else if new_left_size > hi
        then (let delta = hi - drag_start_size_left ia
              in (hi, drag_start_size_right ia - delta))
        else (new_left_size, new_right_size))"

definition apply_right_constraints :: "UI_Interaction \<Rightarrow> int \<Rightarrow> int \<Rightarrow> int \<times> int \<Rightarrow> int \<times> int" where
  "apply_right_constraints ia lo hi sizes =
     (case sizes of (new_left_size, new_right_size) \<Rightarrow>
        if new_right_size < lo
        then (let delta = drag_start_size_right ia - lo
              in (drag_start_size_left ia + delta, lo))
        else if new_right_size > hi
        then (let delta = drag_start_size_right ia - hi
              in (drag_start_size_left ia + delta, hi))
        else (new_left_size, new_right_size))"

text \<open>
  \<open>(resize_dir == 0) ? style.min_w : style.min_h\<close>, and the same for \<open>max\<close> and for the
  preferred size the result is written to.
\<close>

definition axis_min :: "int \<Rightarrow> UI_Style \<Rightarrow> int" where
  "axis_min resize_dir st = (if resize_dir = 0 then min_w st else min_h st)"

definition axis_max :: "int \<Rightarrow> UI_Style \<Rightarrow> int" where
  "axis_max resize_dir st = (if resize_dir = 0 then max_w st else max_h st)"

definition axis_pref :: "int \<Rightarrow> UI_Style \<Rightarrow> int" where
  "axis_pref resize_dir st = (if resize_dir = 0 then pref_w st else pref_h st)"

text \<open>The sizes computed by \<open>UI_Update_Divider_Resize\<close> before they are applied.\<close>

definition resize_sizes :: "UI_Context \<Rightarrow> int \<Rightarrow> int \<Rightarrow> int \<Rightarrow> int \<times> int" where
  "resize_sizes ui left_idx right_idx resize_dir =
     (let ia = interaction ui;
          current_pos = (if resize_dir = 0 then mouse_x (input ui) else mouse_y (input ui));
          delta = current_pos - drag_start_pos ia;
          sizes0 = (drag_start_size_left ia + delta, drag_start_size_right ia - delta);
          sizes1 = (if left_idx \<ge> 0
                    then (let l = style (panels (state ui) ! nat left_idx)
                          in apply_left_constraints ia
                               (axis_min resize_dir l) (axis_max resize_dir l) sizes0)
                    else sizes0)
      in if right_idx \<ge> 0
         then (let r = style (panels (state ui) ! nat right_idx)
               in apply_right_constraints ia
                    (axis_min resize_dir r) (axis_max resize_dir r) sizes1)
         else sizes1)"

text \<open>
  The clamp of the specification: a value brought into \<open>[lo, hi]\<close>, the lower bound
  tested first.
\<close>

definition clamp_to :: "int \<Rightarrow> int \<Rightarrow> int \<Rightarrow> int" where
  "clamp_to lo hi v = (if v < lo then lo else if v > hi then hi else v)"

text \<open>
  Applying a final size to one side: the override is stored under the side's stable id,
  and the panel found for it gets the size as its preferred size and stops growing.
\<close>

definition apply_size :: "UI_Context \<Rightarrow> int \<Rightarrow> int \<Rightarrow> UI_Id \<Rightarrow> int \<Rightarrow> UI_Context" where
  "apply_size ui resize_dir idx target_id new_size =
     (if idx \<ge> 0
      then (if resize_dir = 0
            then (let ui1 = UI_Set_Size_Override ui target_id new_size (-1)
                  in ui1\<lparr>state := upd_panel (state ui1) idx
                           (\<lambda>q. q\<lparr>style := (style q)\<lparr>pref_w := new_size, flex_grow := 0\<rparr>\<rparr>)\<rparr>)
            else (let ui1 = UI_Set_Size_Override ui target_id (-1) new_size
                  in ui1\<lparr>state := upd_panel (state ui1) idx
                           (\<lambda>q. q\<lparr>style := (style q)\<lparr>pref_h := new_size, flex_grow := 0\<rparr>\<rparr>)\<rparr>))
      else ui)"

definition UI_Update_Divider_Resize :: "UI_Context \<Rightarrow> UI_Context" where
  "UI_Update_Divider_Resize ui =
     (let ia = interaction ui in
      if dragging_divider ia = 0 then ui
      else
        (let left_idx = (if resize_target_left_id ia \<noteq> 0
                         then UI_Find_Panel_By_Id (state ui) (resize_target_left_id ia) else -1);
             right_idx = (if resize_target_right_id ia \<noteq> 0
                          then UI_Find_Panel_By_Id (state ui) (resize_target_right_id ia) else -1)
         in if left_idx < 0 \<and> right_idx < 0 then ui
            else
              (let divider_idx = UI_Find_Panel_By_Id (state ui) (dragging_divider ia)
               in if divider_idx < 0 then ui
                  else
                    (let resize_dir = UI_Get_Resize_Direction (state ui) divider_idx
                     in if resize_dir < 0 then ui
                        else
                          (case resize_sizes ui left_idx right_idx resize_dir of
                             (new_left_size, new_right_size) \<Rightarrow>
                               apply_size
                                 (apply_size ui resize_dir left_idx
                                    (resize_target_left_id ia) new_left_size)
                                 resize_dir right_idx (resize_target_right_id ia)
                                 new_right_size)))))"


section \<open>Emitter\<close>

text \<open>
  The render list is reached through the file-scope pointer \<open>g_render_list\<close>, which is
  null until the first frame starts: the emitter takes and returns the list it points
  to, \<open>None\<close> for the null pointer.
\<close>

definition UI_AddRectangle ::
  "UI_Render_List option \<Rightarrow> int \<Rightarrow> int \<Rightarrow> int \<Rightarrow> int \<Rightarrow> 32 word \<Rightarrow> UI_Render_List option" where
  "UI_AddRectangle g l t r b c =
     (case g of
        None \<Rightarrow> None
      | Some rl \<Rightarrow>
          if length (rectangles rl) \<ge> MAX_UI_RECTANGLES then Some rl
          else Some (rl\<lparr>rectangles := rectangles rl @
                 [\<lparr>rect_left = l, rect_top = t, rect_right = r, rect_bottom = b, rect_color = c\<rparr>]\<rparr>))"

definition UI_AddText ::
  "UI_Render_List option \<Rightarrow> int \<Rightarrow> int \<Rightarrow> int \<Rightarrow> int \<Rightarrow> string option \<Rightarrow> 32 word \<Rightarrow> int \<Rightarrow> int \<Rightarrow> int \<Rightarrow>
   UI_Render_List option" where
  "UI_AddText g x y w h t c fs ah av =
     (case g of
        None \<Rightarrow> None
      | Some rl \<Rightarrow>
          if length (texts rl) \<ge> MAX_UI_TEXTS then Some rl
          else (case t of
                  None \<Rightarrow> Some rl
                | Some str \<Rightarrow>
                    Some (rl\<lparr>texts := texts rl @
                      [\<lparr>text_x = x, text_y = y, text_w = w, text_h = h, text_color = c,
                        text_str = take (MAX_UI_TEXT_LENGTH - 1) str,
                        font_size = fs, align_h = ah, align_v = av\<rparr>]\<rparr>)))"

text \<open>What \<open>UI_EmitPanels\<close> emits for one panel, before it descends into the children.\<close>

definition emit_panel :: "UI_Render_List option \<Rightarrow> UI_Panel \<Rightarrow> UI_Render_List option" where
  "emit_panel g p =
     (let g1 = (if \<not> (is_label p \<noteq> 0 \<and> color (style p) = 0)
                then UI_AddRectangle g (rx (rect p)) (ry (rect p))
                       (rx (rect p) + rw (rect p)) (ry (rect p) + rh (rect p)) (color (style p))
                else g)
      in if is_label p \<noteq> 0 \<and> label_text p \<noteq> []
         then UI_AddText g1 (rx (rect p)) (ry (rect p)) (rw (rect p)) (rh (rect p))
                (Some (label_text p)) (label_color p) 14 0 1
         else g1)"

fun emit_tree :: "nat \<Rightarrow> UI_State \<Rightarrow> UI_Render_List option \<Rightarrow> int \<Rightarrow> UI_Render_List option option"
  and emit_children :: "nat \<Rightarrow> UI_State \<Rightarrow> UI_Render_List option \<Rightarrow> int \<Rightarrow> UI_Render_List option option" where
  "emit_tree 0 s g panel_idx = None"
| "emit_tree (Suc n) s g panel_idx =
     (case panel_at s panel_idx of
        None \<Rightarrow> None
      | Some p \<Rightarrow> emit_children n s (emit_panel g p) (first_child p))"
| "emit_children 0 s g c = (if c = -1 then Some g else None)"
| "emit_children (Suc n) s g c =
     (if c = -1 then Some g
      else case emit_tree n s g c of
        None \<Rightarrow> None
      | Some g1 \<Rightarrow>
          (case panel_at s c of
             None \<Rightarrow> None
           | Some child \<Rightarrow> emit_children n s g1 (next_sibling child)))"

definition UI_EmitPanels :: "UI_State \<Rightarrow> UI_Render_List option \<Rightarrow> int \<Rightarrow> UI_Render_List option option" where
  "UI_EmitPanels s g panel_idx = emit_tree (2 * length (panels s)) s g panel_idx"



text \<open>
  The pre-order walk of the tree below a panel, as the list of the panel indices in the
  order of the visit: the panel itself, then the walk of each child in sibling order.
  It follows the same links, with the same step budget, as \<open>UI_EmitPanels\<close>.
\<close>

fun preorder_tree :: "nat \<Rightarrow> UI_State \<Rightarrow> int \<Rightarrow> int list option"
  and preorder_children :: "nat \<Rightarrow> UI_State \<Rightarrow> int \<Rightarrow> int list option" where
  "preorder_tree 0 s panel_idx = None"
| "preorder_tree (Suc n) s panel_idx =
     (case panel_at s panel_idx of
        None \<Rightarrow> None
      | Some p \<Rightarrow> map_option (Cons panel_idx) (preorder_children n s (first_child p)))"
| "preorder_children 0 s c = (if c = -1 then Some [] else None)"
| "preorder_children (Suc n) s c =
     (if c = -1 then Some []
      else case preorder_tree n s c of
        None \<Rightarrow> None
      | Some xs \<Rightarrow>
          (case panel_at s c of
             None \<Rightarrow> None
           | Some child \<Rightarrow> map_option (append xs) (preorder_children n s (next_sibling child))))"

definition preorder :: "UI_State \<Rightarrow> int \<Rightarrow> UI_Panel list option" where
  "preorder s panel_idx =
     map_option (map (\<lambda>i. panels s ! nat i)) (preorder_tree (2 * length (panels s)) s panel_idx)"

text \<open>The primitives of one panel, and the panels that get them.\<close>

definition emits_rectangle :: "UI_Panel \<Rightarrow> bool" where
  "emits_rectangle p = (\<not> (is_label p \<noteq> 0 \<and> color (style p) = 0))"

definition panel_rectangle :: "UI_Panel \<Rightarrow> UI_Rectangle" where
  "panel_rectangle p =
     \<lparr>rect_left = rx (rect p), rect_top = ry (rect p),
      rect_right = rx (rect p) + rw (rect p), rect_bottom = ry (rect p) + rh (rect p),
      rect_color = color (style p)\<rparr>"

definition emits_text :: "UI_Panel \<Rightarrow> bool" where
  "emits_text p = (is_label p \<noteq> 0 \<and> label_text p \<noteq> [])"

definition panel_text :: "UI_Panel \<Rightarrow> UI_Text" where
  "panel_text p =
     \<lparr>text_x = rx (rect p), text_y = ry (rect p), text_w = rw (rect p), text_h = rh (rect p),
      text_color = label_color p, text_str = take (MAX_UI_TEXT_LENGTH - 1) (label_text p),
      font_size = 14, align_h = 0, align_v = 1\<rparr>"


section \<open>Interaction update and frame\<close>

text \<open>
  The events the window procedure feeds in between two frames, and the end of a frame,
  which keeps the whole input state for the edge detection of the next
  \<open>UI_Input_NewFrame\<close>. The source's range test on the button is the type
  \<open>UI_Mouse_Button\<close> here.
\<close>

definition UI_Input_EndFrame :: "UI_Context \<Rightarrow> UI_Context" where
  "UI_Input_EndFrame ui = ui\<lparr>input_prev := input ui\<rparr>"

definition UI_Input_ProcessMouseMove :: "UI_Context \<Rightarrow> int \<Rightarrow> int \<Rightarrow> UI_Context" where
  "UI_Input_ProcessMouseMove ui x y = ui\<lparr>input := (input ui)\<lparr>mouse_x := x, mouse_y := y\<rparr>\<rparr>"

definition UI_Input_ProcessMouseButton :: "UI_Context \<Rightarrow> UI_Mouse_Button \<Rightarrow> int \<Rightarrow> UI_Context" where
  "UI_Input_ProcessMouseButton ui button down =
     ui\<lparr>input := (input ui)\<lparr>mouse_down := (mouse_down (input ui))(button := down)\<rparr>\<rparr>"

definition UI_Is_Mouse_Pressed :: "UI_Context \<Rightarrow> UI_Mouse_Button \<Rightarrow> int" where
  "UI_Is_Mouse_Pressed ui button = mouse_pressed (input ui) button"

definition UI_Is_Point_In_Rect :: "int \<Rightarrow> int \<Rightarrow> UI_RectI \<Rightarrow> int" where
  "UI_Is_Point_In_Rect x y r =
     (if x \<ge> rx r \<and> x < rx r + rw r \<and> y \<ge> ry r \<and> y < ry r + rh r then 1 else 0)"

definition UI_Is_Hovered :: "UI_Context \<Rightarrow> UI_RectI \<Rightarrow> int" where
  "UI_Is_Hovered ui r = UI_Is_Point_In_Rect (mouse_x (input ui)) (mouse_y (input ui)) r"

definition UI_Set_Hot_Widget :: "UI_Context \<Rightarrow> UI_Id \<Rightarrow> UI_Context" where
  "UI_Set_Hot_Widget ui i = ui\<lparr>interaction := (interaction ui)\<lparr>hot_widget := i\<rparr>\<rparr>"

definition UI_Set_Active_Widget :: "UI_Context \<Rightarrow> UI_Id \<Rightarrow> UI_Context" where
  "UI_Set_Active_Widget ui i = ui\<lparr>interaction := (interaction ui)\<lparr>active_widget := i\<rparr>\<rparr>"

definition UI_Clear_Active_Widget :: "UI_Context \<Rightarrow> UI_Context" where
  "UI_Clear_Active_Widget ui = ui\<lparr>interaction := (interaction ui)\<lparr>active_widget := 0\<rparr>\<rparr>"

text \<open>
  The hit box of a resizable panel: its rectangle grown by \<open>padding\<close> on every side.
\<close>

definition UI_Get_Expanded_Rect :: "UI_RectI \<Rightarrow> int \<Rightarrow> UI_RectI" where
  "UI_Get_Expanded_Rect r padding =
     \<lparr>rx = rx r - padding, ry = ry r - padding,
      rw = rw r + padding * 2, rh = rh r + padding * 2\<rparr>"

text \<open>
  The loop of \<open>UI_Find_Adjacent_Panel\<close> over the children of the divider's parent,
  \<open>c\<close> the child it stands on and \<open>prev_idx\<close> the one before. The fuel is the size of
  the arena; \<open>None\<close> is a sibling chain that leaves the arena or does not end.
\<close>

fun find_previous_sibling :: "nat \<Rightarrow> UI_State \<Rightarrow> int \<Rightarrow> int \<Rightarrow> int \<Rightarrow> int option" where
  "find_previous_sibling 0 s divider_idx c prev_idx = (if c = -1 then Some (-1) else None)"
| "find_previous_sibling (Suc n) s divider_idx c prev_idx =
     (if c = -1 then Some (-1)
      else if c = divider_idx then Some prev_idx
      else case panel_at s c of
        None \<Rightarrow> None
      | Some q \<Rightarrow> find_previous_sibling n s divider_idx (next_sibling q) c)"

definition UI_Find_Adjacent_Panel :: "UI_State \<Rightarrow> int \<Rightarrow> int option" where
  "UI_Find_Adjacent_Panel s divider_idx =
     (let divider = panels s ! nat divider_idx in
      if parent divider < 0 then Some (-1)
      else find_previous_sibling (length (panels s)) s divider_idx
             (first_child (panels s ! nat (parent divider))) (-1))"

definition UI_Find_Next_Panel :: "UI_State \<Rightarrow> int \<Rightarrow> int" where
  "UI_Find_Next_Panel s divider_idx = next_sibling (panels s ! nat divider_idx)"

text \<open>
  \<open>UI_Update_Panel_Interaction_NonResizable\<close> and
  \<open>UI_Update_Panel_Interaction_Resizable\<close> are the same depth-first walk, a node first
  and then its children in sibling order, and differ only in the test that makes a
  panel the hot widget: \<open>hit_nonresizable\<close> and \<open>hit_resizable\<close> below are the two
  tests, \<open>interaction_walk\<close> is the walk, \<open>interaction_children\<close> its loop over the
  children. A later hit overwrites an earlier one. The fuel bounds the depth of the
  recursion and the length of a sibling chain; \<open>None\<close> is an index outside the arena
  or a walk that does not end.
\<close>

fun interaction_walk :: "(UI_Context \<Rightarrow> UI_Panel \<Rightarrow> bool) \<Rightarrow> nat \<Rightarrow> UI_Context \<Rightarrow> int \<Rightarrow> UI_Context option"
  and interaction_children :: "(UI_Context \<Rightarrow> UI_Panel \<Rightarrow> bool) \<Rightarrow> nat \<Rightarrow> UI_Context \<Rightarrow> int \<Rightarrow> UI_Context option" where
  "interaction_walk hit 0 ui panel_idx = None"
| "interaction_walk hit (Suc n) ui panel_idx =
     (case panel_at (state ui) panel_idx of
        None \<Rightarrow> None
      | Some p \<Rightarrow>
          interaction_children hit n
            (if hit ui p then UI_Set_Hot_Widget ui (uid p) else ui) (first_child p))"
| "interaction_children hit 0 ui c = (if c = -1 then Some ui else None)"
| "interaction_children hit (Suc n) ui c =
     (if c = -1 then Some ui
      else case interaction_walk hit n ui c of
        None \<Rightarrow> None
      | Some ui1 \<Rightarrow>
          (case panel_at (state ui1) c of
             None \<Rightarrow> None
           | Some child \<Rightarrow> interaction_children hit n ui1 (next_sibling child)))"

definition hit_nonresizable :: "UI_Context \<Rightarrow> UI_Panel \<Rightarrow> bool" where
  "hit_nonresizable ui p \<longleftrightarrow>
     is_label p = 0 \<and> resizable (style p) = 0 \<and> UI_Is_Hovered ui (rect p) \<noteq> 0"

definition hit_resizable :: "UI_Context \<Rightarrow> UI_Panel \<Rightarrow> bool" where
  "hit_resizable ui p \<longleftrightarrow>
     is_label p = 0 \<and> resizable (style p) \<noteq> 0 \<and>
     UI_Is_Hovered ui (UI_Get_Expanded_Rect (rect p) (resize_hitbox_padding (style p))) \<noteq> 0"

definition UI_Update_Panel_Interaction_NonResizable :: "UI_Context \<Rightarrow> int \<Rightarrow> UI_Context option" where
  "UI_Update_Panel_Interaction_NonResizable ui panel_idx =
     interaction_walk hit_nonresizable (2 * length (panels (state ui))) ui panel_idx"

definition UI_Update_Panel_Interaction_Resizable :: "UI_Context \<Rightarrow> int \<Rightarrow> UI_Context option" where
  "UI_Update_Panel_Interaction_Resizable ui panel_idx =
     interaction_walk hit_resizable (2 * length (panels (state ui))) ui panel_idx"

text \<open>
  The two blocks that end \<open>UI_Update_Interaction\<close>: on the press edge of the left
  button a hot resizable panel starts a divider drag and any other hot panel becomes
  the active widget; on the release edge the drag, or else the active widget, is
  cleared.
\<close>

definition handle_drag_start :: "UI_Context \<Rightarrow> UI_Context option" where
  "handle_drag_start ui =
     (if UI_Is_Mouse_Pressed ui UI_MOUSE_LEFT \<noteq> 0 \<and> hot_widget (interaction ui) \<noteq> 0
      then (let hot_idx = UI_Find_Panel_By_Id (state ui) (hot_widget (interaction ui)) in
            if hot_idx \<ge> 0 \<and> resizable (style (panels (state ui) ! nat hot_idx)) \<noteq> 0
            then (case UI_Find_Adjacent_Panel (state ui) hot_idx of
                    None \<Rightarrow> None
                  | Some left_idx \<Rightarrow>
                      (let right_idx = UI_Find_Next_Panel (state ui) hot_idx;
                           resize_dir = UI_Get_Resize_Direction (state ui) hot_idx;
                           ia = interaction ui;
                           ia1 = ia\<lparr>dragging_divider := hot_widget ia,
                                    drag_start_pos := (if resize_dir = 0 then mouse_x (input ui)
                                                       else mouse_y (input ui))\<rparr>;
                           ia2 = (if left_idx \<ge> 0
                                  then (let left = panels (state ui) ! nat left_idx
                                        in ia1\<lparr>resize_target_left_id := uid left,
                                                drag_start_size_left :=
                                                  (if resize_dir = 0 then rw (rect left)
                                                   else rh (rect left))\<rparr>)
                                  else ia1\<lparr>resize_target_left_id := 0,
                                           drag_start_size_left := 0\<rparr>);
                           ia3 = (if right_idx \<ge> 0
                                  then (let right = panels (state ui) ! nat right_idx
                                        in ia2\<lparr>resize_target_right_id := uid right,
                                                drag_start_size_right :=
                                                  (if resize_dir = 0 then rw (rect right)
                                                   else rh (rect right))\<rparr>)
                                  else ia2\<lparr>resize_target_right_id := 0,
                                           drag_start_size_right := 0\<rparr>)
                       in Some (ui\<lparr>interaction := ia3\<rparr>)))
            else Some (UI_Set_Active_Widget ui (hot_widget (interaction ui))))
      else Some ui)"

definition handle_drag_end :: "UI_Context \<Rightarrow> UI_Context" where
  "handle_drag_end ui =
     (if UI_Is_Mouse_Released ui UI_MOUSE_LEFT \<noteq> 0
      then (if dragging_divider (interaction ui) \<noteq> 0
            then ui\<lparr>interaction := (interaction ui)\<lparr>
                   dragging_divider := 0,
                   resize_target_left_id := 0,
                   resize_target_right_id := 0,
                   drag_start_size_left := 0,
                   drag_start_size_right := 0,
                   drag_start_pos := 0\<rparr>\<rparr>
            else UI_Clear_Active_Widget ui)
      else ui)"

definition UI_Update_Interaction :: "UI_Context \<Rightarrow> UI_Context option" where
  "UI_Update_Interaction ui =
     (let ui1 = UI_Update_Divider_Resize ui;
          ui2 = ui1\<lparr>interaction := (interaction ui1)\<lparr>hot_widget := 0\<rparr>\<rparr>
      in case (if panels (state ui2) \<noteq> []
               then (case UI_Update_Panel_Interaction_NonResizable ui2 0 of
                       None \<Rightarrow> None
                     | Some ui3 \<Rightarrow> UI_Update_Panel_Interaction_Resizable ui3 0)
               else Some ui2) of
           None \<Rightarrow> None
         | Some ui4 \<Rightarrow> map_option handle_drag_end (handle_drag_start ui4))"

text \<open>
  One frame as the application's \<open>Render\<close> runs it: the frame starts, the
  application builds its panels, the tree is laid out, the interaction is updated
  from the rectangles just computed, the panels are emitted and the input state is
  kept for the next frame. The application's build function, its text measure and
  the frame rate it reports are parameters; the choice of the cursor and the
  Direct2D drawing touch nothing of the context and are left out. The result is the
  context after the frame and the render list.
\<close>

definition Render ::
  "(UI_Context \<Rightarrow> UI_Context) \<Rightarrow> (string \<Rightarrow> int \<Rightarrow> UI_RectI) \<Rightarrow> int \<Rightarrow> UI_Context \<Rightarrow> int \<Rightarrow> int \<Rightarrow> rat \<Rightarrow>
   (UI_Context \<times> UI_Render_List option) option" where
  "Render App_UI_Build App_Measure_Text actual_fps ui w h dt =
     (case UI_BeginFrame_WithTime (ui\<lparr>measure_text := Some App_Measure_Text\<rparr>) w h dt of
        (ui1, list) \<Rightarrow>
          (let ui2 = App_UI_Build (ui1\<lparr>current_fps := actual_fps\<rparr>) in
           case (if panels (state ui2) \<noteq> [] then UI_LayoutPanelTree (state ui2) 0
                 else Some (state ui2)) of
             None \<Rightarrow> None
           | Some s3 \<Rightarrow>
               (case UI_Update_Interaction (ui2\<lparr>state := s3\<rparr>) of
                  None \<Rightarrow> None
                | Some ui4 \<Rightarrow>
                    (case (if panels (state ui4) \<noteq> [] then UI_EmitPanels (state ui4) (Some list) 0
                           else Some (Some list)) of
                       None \<Rightarrow> None
                     | Some drawn \<Rightarrow> Some (UI_Input_EndFrame ui4, drawn)))))"

text \<open>
  The pointer is inside the bounds of a panel carrying the id \<open>i\<close>, by the test the
  interaction update applies to that panel.
\<close>

definition pointer_over :: "UI_Context \<Rightarrow> UI_Id \<Rightarrow> bool" where
  "pointer_over ui i \<longleftrightarrow>
     (\<exists>p \<in> set (panels (state ui)). uid p = i \<and> (hit_nonresizable ui p \<or> hit_resizable ui p))"

text \<open>
  \<open>frame_path ui c\<close>: the context \<open>c\<close> is reached from \<open>ui\<close> by calls of the input
  events, the end and the start of a frame, and the builder, in any number and order.
  With \<open>ui\<close> the result of \<open>UI_Update_Interaction\<close> these are the calls that can come
  between one interaction update and the next.
\<close>

inductive frame_path :: "UI_Context \<Rightarrow> UI_Context \<Rightarrow> bool" where
  start: "frame_path ui ui"
| mouse_move: "frame_path ui c \<Longrightarrow> frame_path ui (UI_Input_ProcessMouseMove c x y)"
| mouse_button: "frame_path ui c \<Longrightarrow> frame_path ui (UI_Input_ProcessMouseButton c button down)"
| end_frame: "frame_path ui c \<Longrightarrow> frame_path ui (UI_Input_EndFrame c)"
| measure: "frame_path ui c \<Longrightarrow> frame_path ui (c\<lparr>measure_text := m\<rparr>)"
| begin_frame: "frame_path ui c \<Longrightarrow> frame_path ui (fst (UI_BeginFrame_WithTime c w h dt))"
| fps: "frame_path ui c \<Longrightarrow> frame_path ui (c\<lparr>current_fps := f\<rparr>)"
| begin_panel: "frame_path ui c \<Longrightarrow> frame_path ui (UI_Begin_Panel c id_str)"
| begin_panel_with_id: "frame_path ui c \<Longrightarrow> frame_path ui (UI_Begin_Panel_With_Id c i)"
| end_panel: "frame_path ui c \<Longrightarrow> frame_path ui (UI_End_Panel c)"
| set_style: "frame_path ui c \<Longrightarrow> frame_path ui (set_top_style c f)"
| label: "frame_path ui c \<Longrightarrow> frame_path ui (UI_Label c text_opt col)"
| button: "frame_path ui c \<Longrightarrow> frame_path ui (fst (UI_Button c t))"


section \<open>Concrete contexts\<close>

text \<open>
  The context as the application initialises it (\<open>memset\<close> to zero, then
  \<open>UI_Input_Init\<close>), and the inputs at which the theorems below are instantiated.
\<close>

definition zero_input :: UI_Input where
  "zero_input =
     \<lparr>mouse_x = 0, mouse_y = 0, mouse_x_prev = 0, mouse_y_prev = 0, mouse_dx = 0, mouse_dy = 0,
      mouse_down = (\<lambda>b. 0), mouse_pressed = (\<lambda>b. 0), mouse_released = (\<lambda>b. 0),
      mouse_wheel_delta = 0,
      key_down = (\<lambda>k. 0), key_pressed = (\<lambda>k. 0), key_released = (\<lambda>k. 0),
      char_buffer = [], last_char = CHR 0x00, ctrl = 0, shift = 0, alt = 0\<rparr>"

definition zero_interaction :: UI_Interaction where
  "zero_interaction =
     \<lparr>hot_widget = 0, hot_widget_prev = 0, active_widget = 0, active_widget_prev = 0,
      focused_widget = 0, dragging_divider = 0, drag_start_pos = 0,
      drag_start_size_left = 0, drag_start_size_right = 0,
      resize_target_left_id = 0, resize_target_right_id = 0\<rparr>"

definition zero_context :: UI_Context where
  "zero_context =
     \<lparr>screen_w = 0, screen_h = 0, state = \<lparr>panels = []\<rparr>, parent_stack = [],
      measure_text = None, used_ids = [], input = zero_input, input_prev = zero_input,
      interaction = zero_interaction, size_overrides = [], frame_number = 0,
      delta_time_ms = 0, current_fps = 0, last_button_clicked = []\<rparr>"

text \<open>A name of 255 bytes.\<close>

definition long_name :: string where
  "long_name = replicate 255 (CHR ''a'')"

text \<open>
  A context whose arena is full: 1024 root panels, as 1024 calls of
  \<open>UI_Begin_Panel_With_Id\<close> with id 7, each closed by \<open>UI_End_Panel\<close>, leave it on a
  zero-sized viewport.
\<close>

definition full_context :: UI_Context where
  "full_context = zero_context\<lparr>state := \<lparr>panels = replicate 1024 (new_panel 7)\<rparr>\<rparr>"

text \<open>
  An application with one button: a column container \<open>root\<close> holding the button
  \<open>OK\<close>, on a viewport of 300 by 100, with a text measure of 8 pixels a character.
  \<open>click_frame\<close> is one frame of it. \<open>click_begin\<close> is the start of a frame and
  \<open>click_button_ctx\<close> the context in which the button is then built, so that
  \<open>click_flag e\<close> is what \<open>UI_Button\<close> returns in the frame that follows \<open>e\<close>.
\<close>

definition click_measure :: "string \<Rightarrow> int \<Rightarrow> UI_RectI" where
  "click_measure t sz = \<lparr>rx = 0, ry = 0, rw = 8 * int (length t), rh = 14\<rparr>"

definition click_button_ctx :: "UI_Context \<Rightarrow> UI_Context" where
  "click_button_ctx ui = UI_Panel_Set_Direction (UI_Begin_Panel ui ''root'') 1"

definition click_app :: "UI_Context \<Rightarrow> UI_Context" where
  "click_app ui = UI_End_Panel (fst (UI_Button (click_button_ctx ui) ''OK''))"

definition click_frame :: "UI_Context \<Rightarrow> UI_Context option" where
  "click_frame ui = map_option fst (Render click_app click_measure 60 ui 300 100 16)"

definition click_begin :: "UI_Context \<Rightarrow> UI_Context" where
  "click_begin ui =
     (fst (UI_BeginFrame_WithTime (ui\<lparr>measure_text := Some click_measure\<rparr>) 300 100 16))\<lparr>current_fps := 60\<rparr>"

text \<open>
  The pointer moves off the button, to (10, 80), and the left button is released,
  both before the next frame.
\<close>

definition click_leave_release :: "UI_Context \<Rightarrow> UI_Context" where
  "click_leave_release c =
     UI_Input_ProcessMouseButton (UI_Input_ProcessMouseMove c 10 80) UI_MOUSE_LEFT 0"

definition click_flag :: "UI_Context \<Rightarrow> int" where
  "click_flag e = snd (UI_Button (click_button_ctx (click_begin e)) ''OK'')"

text \<open>
  Two frames: the pointer is on the button at (10, 10), then the left button goes down.
\<close>

definition click_pressed :: "UI_Context option" where
  "click_pressed =
     Option.bind (click_frame (UI_Input_ProcessMouseMove zero_context 10 10))
       (\<lambda>c1. click_frame (UI_Input_ProcessMouseButton c1 UI_MOUSE_LEFT 1))"

text \<open>
  The arena of the application after the build and after the layout; the two colours
  of the button depend on its state.
\<close>

definition click_tree :: "32 word \<Rightarrow> 32 word \<Rightarrow> UI_State" where
  "click_tree bg tc =
     \<lparr>panels =
        [(new_panel 2090695081)\<lparr>first_child := 1, last_child := 1,
            rect := \<lparr>rx = 0, ry = 0, rw = 300, rh = 100\<rparr>,
            style := (style (new_panel 2090695081))\<lparr>direction := 1\<rparr>\<rparr>,
         (new_panel 5862591)\<lparr>parent := 0, first_child := 2, last_child := 2,
            style := (style (new_panel 5862591))\<lparr>pref_h := 30, color := bg,
               pad_l := 8, pad_t := 4, pad_r := 8, pad_b := 4\<rparr>\<rparr>,
         (new_panel 230574581)\<lparr>parent := 1,
            style := (style (new_panel 230574581))\<lparr>pref_w := 18, pref_h := 14, color := 0\<rparr>,
            is_label := 1, label_color := tc, label_text := ''OK''\<rparr>]\<rparr>"

definition click_laid :: "32 word \<Rightarrow> 32 word \<Rightarrow> UI_State" where
  "click_laid bg tc =
     \<lparr>panels =
        [(new_panel 2090695081)\<lparr>first_child := 1, last_child := 1,
            rect := \<lparr>rx = 0, ry = 0, rw = 300, rh = 100\<rparr>,
            style := (style (new_panel 2090695081))\<lparr>direction := 1\<rparr>\<rparr>,
         (new_panel 5862591)\<lparr>parent := 0, first_child := 2, last_child := 2,
            rect := \<lparr>rx = 0, ry = 0, rw = 300, rh = 30\<rparr>,
            style := (style (new_panel 5862591))\<lparr>pref_h := 30, color := bg,
               pad_l := 8, pad_t := 4, pad_r := 8, pad_b := 4\<rparr>\<rparr>,
         (new_panel 230574581)\<lparr>parent := 1,
            rect := \<lparr>rx = 8, ry = 4, rw = 18, rh = 22\<rparr>,
            style := (style (new_panel 230574581))\<lparr>pref_w := 18, pref_h := 14, color := 0\<rparr>,
            is_label := 1, label_color := tc, label_text := ''OK''\<rparr>]\<rparr>"


text \<open>
  A row container (panel 0) with a left panel (1), a divider (2) and a right panel (3),
  all with the default constraints of \<open>UI_NewPanel\<close> (minimum size 200), in the middle
  of a drag of the divider: the left panel started at 250 pixels, the right one at 100,
  and the pointer has moved 100 pixels to the left.
\<close>

definition divider_context :: UI_Context where
  "divider_context =
     zero_context\<lparr>
       state := \<lparr>panels =
         [(new_panel 1)\<lparr>first_child := 1, last_child := 3,
                        rect := \<lparr>rx = 0, ry = 0, rw = 351, rh = 100\<rparr>\<rparr>,
          (new_panel 2)\<lparr>parent := 0, next_sibling := 2,
                        rect := \<lparr>rx = 0, ry = 0, rw = 250, rh = 100\<rparr>\<rparr>,
          (new_panel 3)\<lparr>parent := 0, next_sibling := 3,
                        style := (style (new_panel 3))\<lparr>pref_w := 1, resizable := 1\<rparr>,
                        rect := \<lparr>rx = 250, ry = 0, rw = 1, rh = 100\<rparr>\<rparr>,
          (new_panel 4)\<lparr>parent := 0,
                        rect := \<lparr>rx = 251, ry = 0, rw = 100, rh = 100\<rparr>\<rparr>]\<rparr>,
       input := zero_input\<lparr>mouse_x := 150\<rparr>,
       interaction := zero_interaction\<lparr>
         dragging_divider := 3, drag_start_pos := 250,
         drag_start_size_left := 250, drag_start_size_right := 100,
         resize_target_left_id := 2, resize_target_right_id := 4\<rparr>\<rparr>"

text \<open>The same drag with a right panel that started at 300 pixels.\<close>

definition divider_context_wide :: UI_Context where
  "divider_context_wide =
     divider_context\<lparr>interaction := (interaction divider_context)\<lparr>drag_start_size_right := 300\<rparr>\<rparr>"


text \<open>A store with one entry, for panel id 7: width 300, height 120.\<close>

definition override_context :: UI_Context where
  "override_context =
     zero_context\<lparr>size_overrides := [\<lparr>ov_panel_id = 7, ov_pref_w = 300, ov_pref_h = 120\<rparr>]\<rparr>"


text \<open>
  The store after a horizontal drag has set the width of the panel named \<open>left\<close> to 500.
\<close>

definition left_override_context :: UI_Context where
  "left_override_context =
     UI_Set_Size_Override zero_context (UI_HashString (Some ''left'')) 500 (-1)"




text \<open>
  A single panel that is not a label, with the fully transparent colour, as
  \<open>UI_Panel_Set_Color\<close> with colour 0 leaves it.
\<close>

definition transparent_panel_state :: UI_State where
  "transparent_panel_state =
     \<lparr>panels = [(new_panel 1)\<lparr>style := (style (new_panel 1))\<lparr>color := 0\<rparr>,
                               rect := \<lparr>rx = 10, ry = 20, rw = 30, rh = 40\<rparr>\<rparr>]\<rparr>"


text \<open>
  A root with two children: a label with the transparent colour and the text \<open>Hi\<close>,
  and a plain panel.
\<close>

definition label_example_state :: UI_State where
  "label_example_state =
     \<lparr>panels =
        [(new_panel 1)\<lparr>first_child := 1, last_child := 2,
                       rect := \<lparr>rx = 0, ry = 0, rw = 300, rh = 50\<rparr>\<rparr>,
         (new_panel 2)\<lparr>parent := 0, next_sibling := 2,
                       style := (style (new_panel 2))\<lparr>color := 0\<rparr>,
                       rect := \<lparr>rx = 0, ry = 0, rw = 100, rh = 50\<rparr>,
                       is_label := 1, label_text := ''Hi''\<rparr>,
         (new_panel 3)\<lparr>parent := 0,
                       rect := \<lparr>rx = 100, ry = 0, rw = 200, rh = 50\<rparr>\<rparr>]\<rparr>"


text \<open>
  A frame built by the builder: a root of 300 by 50 pixels with a first child of
  preferred width 100 and a second child that grows.
\<close>

definition built_example :: UI_Context where
  "built_example =
     UI_End_Panel
       (UI_End_Panel
          (UI_Panel_Set_Grow
             (UI_Begin_Panel_With_Id
                (UI_End_Panel
                   (UI_Panel_Set_Size
                      (UI_Begin_Panel_With_Id
                         (UI_Begin_Panel_With_Id (fst (UI_BeginFrame zero_context 300 50)) 1) 2)
                      100 (-1)))
                3)
             1))"

section \<open>Properties of the hash\<close>

lemma UI_HashString_loop_foldl:
  "UI_HashString_loop h s = foldl (\<lambda>a c. a * 33 + char_val c) h s"
  by (induction s arbitrary: h) (simp_all add: push_bit_eq_mult mult.commute)

lemma UI_HashString_loop_append:
  "UI_HashString_loop h (s @ t) = UI_HashString_loop (UI_HashString_loop h s) t"
  by (induction s arbitrary: h) simp_all

text \<open>
  Claim C7, as amended. The hash is the djb2 recurrence \<open>h = h * 33 + byte\<close> over the
  bytes in order, started at 5381, in 32-bit arithmetic; the absent (null) name hashes
  to 0, and the empty name hashes to the seed 5381.
\<close>

theorem UI_HashString_djb2:
  "UI_HashString None = 0 \<and>
   UI_HashString (Some s) = foldl (\<lambda>a c. a * 33 + char_val c) 5381 s \<and>
   UI_HashString (Some []) = 5381"
  by (simp add: UI_HashString_def UI_HashString_loop_foldl)

text \<open>Claim C7 as stated fails for the empty name: its hash is not 0.\<close>

theorem UI_HashString_empty_nonzero:
  "UI_HashString (Some '''') \<noteq> 0"
  by (simp add: UI_HashString_def)


lemma hash_suffix_ne: "((h * 33 + 35) * 33 + 35) * 33 + 48 \<noteq> (h :: 32 word)"
proof
  assume "((h * 33 + 35) * 33 + 35) * 33 + 48 = h"
  then have "h * 35936 + 39318 = 0" by (simp add: algebra_simps)
  then have "uint (h * 35936 + 39318) = 0" by simp
  then have "(uint h * 35936 + 39318) mod 4294967296 = 0"
    by (simp add: uint_word_ariths mod_simps)
  then have "4294967296 dvd (uint h * 35936 + 39318)" by (simp add: dvd_eq_mod_eq_0)
  moreover have "(4::int) dvd 4294967296" by simp
  ultimately have "4 dvd (uint h * 35936 + 39318)" by (rule dvd_trans [rotated])
  moreover have "(4::int) dvd uint h * 35936" by (rule dvd_mult) simp
  ultimately have "(4::int) dvd 39318" by (simp only: dvd_add_right_iff)
  then show False by simp
qed

lemma char_val_hash_zero: "char_val (CHR ''#'') = 35" "char_val (CHR ''0'') = 48"
  by (simp_all add: char_val_def)

lemma hash_step: "push_bit 5 h + h + c = h * 33 + (c :: 32 word)"
  by (simp add: push_bit_eq_mult)

lemma hash_suffix: "UI_HashString_loop h ''##0'' = ((h * 33 + 35) * 33 + 35) * 33 + 48"
  by (simp only: UI_HashString_loop.simps hash_step char_val_hash_zero)

lemma hash_dedup_ne:
  "UI_HashString (Some (name @ ''##0'')) \<noteq> UI_HashString (Some name)"
  using hash_suffix_ne [of "UI_HashString_loop 5381 name"]
  by (simp only: UI_HashString_def option.case UI_HashString_loop_append hash_suffix not_False_eq_True)

lemma bump_used_id_append_None:
  "bump_used_id us b = None \<Longrightarrow> bump_used_id (us @ [(b, k)]) b = Some (us @ [(b, k + 1)], k)"
  by (induction us) (auto split: if_splits)

lemma show_int_0: "show_int 0 = ''0''"
  by (simp add: show_int_def digit_char_def)

lemma unique_str_short:
  "length name \<le> 252 \<Longrightarrow> unique_str name 0 = name @ ''##0''"
  by (simp add: unique_str_def show_int_0 MAX_UI_TEXT_LENGTH_def)

lemma Generate_first:
  "bump_used_id (used_ids ctx) (UI_HashString (Some name)) = None \<Longrightarrow>
   snd (UI_Generate_Id ctx name) = UI_HashString (Some name)"
  by (simp add: UI_Generate_Id_def Let_def)

lemma Generate_second:
  assumes "bump_used_id (used_ids ctx) (UI_HashString (Some name)) = None"
    and "length (used_ids ctx) < 1024"
  shows "snd (UI_Generate_Id (fst (UI_Generate_Id ctx name)) name) =
         UI_HashString (Some (unique_str name 0))"
  using assms by (simp add: UI_Generate_Id_def Let_def bump_used_id_append_None)

text \<open>
  A frame start clears the occurrence table, so the first generation of a name in a
  frame returns the hash of the name, in every frame. Where the name followed by \<open>##0\<close>
  fits the buffer (a name of at most 252 bytes) and the table has room for the name, the
  second generation returns the hash of the name followed by \<open>##0\<close>, which differs from
  the first id.
\<close>

lemma UI_Generate_Id_dedup:
  "used_ids (fst (UI_BeginFrame_WithTime ui w h dt)) = [] \<and>
   snd (UI_Generate_Id (fst (UI_BeginFrame_WithTime ui w h dt)) name) = UI_HashString (Some name) \<and>
   (bump_used_id (used_ids ctx) (UI_HashString (Some name)) = None \<longrightarrow>
      snd (UI_Generate_Id ctx name) = UI_HashString (Some name)) \<and>
   (bump_used_id (used_ids ctx) (UI_HashString (Some name)) = None \<and>
    length (used_ids ctx) < 1024 \<and> length name \<le> 252 \<longrightarrow>
      snd (UI_Generate_Id (fst (UI_Generate_Id ctx name)) name) =
        UI_HashString (Some (name @ ''##0'')) \<and>
      snd (UI_Generate_Id (fst (UI_Generate_Id ctx name)) name) \<noteq> snd (UI_Generate_Id ctx name))"
proof -
  have a: "used_ids (fst (UI_BeginFrame_WithTime ui w h dt)) = []"
    by (simp add: UI_BeginFrame_WithTime_def UI_Input_NewFrame_def Let_def)
  then have b: "snd (UI_Generate_Id (fst (UI_BeginFrame_WithTime ui w h dt)) name) =
      UI_HashString (Some name)"
    by (simp add: Generate_first)
  show ?thesis
    using a b hash_dedup_ne [of name]
    by (auto simp add: Generate_first Generate_second unique_str_short)
qed

lemma UI_Generate_Id_dedup_example:
  "snd (UI_Generate_Id (fst (UI_Generate_Id (fst (UI_BeginFrame zero_context 800 600)) ''Save''))
        ''Save'') = UI_HashString (Some ''Save##0'') \<and>
   snd (UI_Generate_Id (fst (UI_Generate_Id (fst (UI_BeginFrame zero_context 800 600)) ''Save''))
        ''Save'') \<noteq>
   snd (UI_Generate_Id (fst (UI_BeginFrame zero_context 800 600)) ''Save'')"
proof -
  have e: "used_ids (fst (UI_BeginFrame zero_context 800 600)) = []"
    using UI_Generate_Id_dedup [of zero_context 800 600 0 "''Save''" zero_context]
    by (simp add: UI_BeginFrame_def)
  show ?thesis
    using UI_Generate_Id_dedup [of zero_context 800 600 0 "''Save''"
        "fst (UI_BeginFrame zero_context 800 600)"]
    by (auto simp add: e)
qed

text \<open>
  Claim C2 at a name of 255 bytes, generated twice in the first frame of the zeroed
  context. The claim says that the second id is the hash of the name followed by
  \<open>##0\<close> and differs from the first. In the code \<open>snprintf\<close> cuts the formatted text
  back to the 255 bytes of the name: the second id is the hash of the name again, equal
  to the first id and different from the hash of the name followed by \<open>##0\<close>.
\<close>

theorem UI_Generate_Id_long_name_collision:
  "snd (UI_Generate_Id (fst (UI_BeginFrame zero_context 800 600)) long_name) =
     UI_HashString (Some long_name) \<and>
   snd (UI_Generate_Id (fst (UI_Generate_Id (fst (UI_BeginFrame zero_context 800 600)) long_name))
        long_name) = UI_HashString (Some long_name) \<and>
   UI_HashString (Some long_name) \<noteq> UI_HashString (Some (long_name @ ''##0''))"
proof -
  have "used_ids (fst (UI_BeginFrame zero_context 800 600)) = []"
    by (simp add: UI_BeginFrame_def UI_BeginFrame_WithTime_def UI_Input_NewFrame_def Let_def)
  moreover have "unique_str long_name 0 = long_name"
    by (simp add: unique_str_def long_name_def MAX_UI_TEXT_LENGTH_def)
  ultimately have "snd (UI_Generate_Id (fst (UI_BeginFrame zero_context 800 600)) long_name) =
     UI_HashString (Some long_name) \<and>
   snd (UI_Generate_Id (fst (UI_Generate_Id (fst (UI_BeginFrame zero_context 800 600)) long_name))
        long_name) = UI_HashString (Some long_name)"
    by (simp add: UI_Generate_Id_def Let_def)
  moreover have "UI_HashString (Some long_name) \<noteq> UI_HashString (Some (long_name @ ''##0''))"
    using hash_dedup_ne [of long_name] by (rule not_sym)
  ultimately show ?thesis by (intro conjI) (erule conjunct1, erule conjunct2, assumption)
qed


section \<open>Properties of the size-override store\<close>

lemma find_update_override_same:
  "find_override es pid = Some e \<Longrightarrow>
   \<exists>es'. update_override es pid pw ph = Some es' \<and> length es' = length es \<and>
     find_override es' pid =
       Some (e\<lparr>ov_pref_w := (if pw \<ge> 0 then pw else ov_pref_w e),
                ov_pref_h := (if ph \<ge> 0 then ph else ov_pref_h e)\<rparr>) \<and>
     (\<forall>q. q \<noteq> pid \<longrightarrow> find_override es' q = find_override es q)"
  by (induction es) auto

lemma update_override_None:
  "find_override es pid = None \<Longrightarrow> update_override es pid pw ph = None"
  by (induction es) auto

lemma find_override_append:
  "find_override (es @ fs) q =
     (case find_override es q of Some e \<Rightarrow> Some e | None \<Rightarrow> find_override fs q)"
  by (induction es) auto

text \<open>
  Claim C10. When the store already holds an entry for the panel id, setting an override
  replaces only the dimensions passed as non-negative: a read of the other dimension
  returns what it returned before, the number of entries is unchanged and no other id is
  affected. In particular a call with preferred height \<open>-1\<close>, as the horizontal divider
  drag makes, keeps the stored height, and so does the drag's own step \<open>apply_size\<close> for
  a horizontal resize of a panel that was found. With no entry for the id and room in
  the store, the new entry stores both values as passed, the \<open>-1\<close> included.
\<close>

theorem UI_Set_Size_Override_existing:
  "(find_override (size_overrides ui) pid \<noteq> None \<longrightarrow>
      UI_Get_Size_Override_W (UI_Set_Size_Override ui pid pw ph) pid =
        (if pw \<ge> 0 then pw else UI_Get_Size_Override_W ui pid) \<and>
      UI_Get_Size_Override_H (UI_Set_Size_Override ui pid pw ph) pid =
        (if ph \<ge> 0 then ph else UI_Get_Size_Override_H ui pid) \<and>
      UI_Get_Size_Override_H (UI_Set_Size_Override ui pid pw (-1)) pid =
        UI_Get_Size_Override_H ui pid \<and>
      (\<forall>idx new_size. 0 \<le> idx \<longrightarrow>
         UI_Get_Size_Override_H (apply_size ui 0 idx pid new_size) pid =
           UI_Get_Size_Override_H ui pid) \<and>
      length (size_overrides (UI_Set_Size_Override ui pid pw ph)) = length (size_overrides ui) \<and>
      (\<forall>q. q \<noteq> pid \<longrightarrow>
         UI_Get_Size_Override_W (UI_Set_Size_Override ui pid pw ph) q = UI_Get_Size_Override_W ui q \<and>
         UI_Get_Size_Override_H (UI_Set_Size_Override ui pid pw ph) q = UI_Get_Size_Override_H ui q)) \<and>
   (find_override (size_overrides ui) pid = None \<and> length (size_overrides ui) < 32 \<longrightarrow>
      size_overrides (UI_Set_Size_Override ui pid pw ph) =
        size_overrides ui @ [\<lparr>ov_panel_id = pid, ov_pref_w = pw, ov_pref_h = ph\<rparr>] \<and>
      UI_Get_Size_Override_W (UI_Set_Size_Override ui pid pw ph) pid = pw \<and>
      UI_Get_Size_Override_H (UI_Set_Size_Override ui pid pw ph) pid = ph)"
proof (intro conjI impI)
  assume "find_override (size_overrides ui) pid \<noteq> None"
  then obtain e where e: "find_override (size_overrides ui) pid = Some e" by blast
  from find_update_override_same [OF e, of pw ph] obtain es' where
    u: "update_override (size_overrides ui) pid pw ph = Some es'" and
    l: "length es' = length (size_overrides ui)" and
    f: "find_override es' pid =
          Some (e\<lparr>ov_pref_w := (if pw \<ge> 0 then pw else ov_pref_w e),
                   ov_pref_h := (if ph \<ge> 0 then ph else ov_pref_h e)\<rparr>)" and
    o: "\<forall>q. q \<noteq> pid \<longrightarrow> find_override es' q = find_override (size_overrides ui) q"
    by blast
  from find_update_override_same [OF e, of pw "-1"] obtain es'' where
    u': "update_override (size_overrides ui) pid pw (-1) = Some es''" and
    f': "find_override es'' pid =
          Some (e\<lparr>ov_pref_w := (if pw \<ge> 0 then pw else ov_pref_w e),
                   ov_pref_h := (if (-1::int) \<ge> 0 then -1 else ov_pref_h e)\<rparr>)"
    by blast
  show "UI_Get_Size_Override_W (UI_Set_Size_Override ui pid pw ph) pid =
        (if pw \<ge> 0 then pw else UI_Get_Size_Override_W ui pid)"
    using e u f by (simp add: UI_Get_Size_Override_W_def UI_Set_Size_Override_def)
  show "UI_Get_Size_Override_H (UI_Set_Size_Override ui pid pw ph) pid =
        (if ph \<ge> 0 then ph else UI_Get_Size_Override_H ui pid)"
    using e u f by (simp add: UI_Get_Size_Override_H_def UI_Set_Size_Override_def)
  show "UI_Get_Size_Override_H (UI_Set_Size_Override ui pid pw (-1)) pid =
        UI_Get_Size_Override_H ui pid"
    using e u' f' by (simp add: UI_Get_Size_Override_H_def UI_Set_Size_Override_def)
  show "\<forall>idx new_size. 0 \<le> idx \<longrightarrow>
         UI_Get_Size_Override_H (apply_size ui 0 idx pid new_size) pid =
           UI_Get_Size_Override_H ui pid"
  proof (intro allI impI)
    fix idx new_size :: int
    assume i: "0 \<le> idx"
    from find_update_override_same [OF e, of new_size "-1"] obtain es3 where
      u3: "update_override (size_overrides ui) pid new_size (-1) = Some es3" and
      f3: "find_override es3 pid =
            Some (e\<lparr>ov_pref_w := (if new_size \<ge> 0 then new_size else ov_pref_w e),
                     ov_pref_h := (if (-1::int) \<ge> 0 then -1 else ov_pref_h e)\<rparr>)"
      by blast
    show "UI_Get_Size_Override_H (apply_size ui 0 idx pid new_size) pid =
           UI_Get_Size_Override_H ui pid"
      using i e u3 f3
      by (simp add: apply_size_def Let_def UI_Get_Size_Override_H_def UI_Set_Size_Override_def)
  qed
  show "length (size_overrides (UI_Set_Size_Override ui pid pw ph)) = length (size_overrides ui)"
    using u l by (simp add: UI_Set_Size_Override_def)
  show "\<forall>q. q \<noteq> pid \<longrightarrow>
         UI_Get_Size_Override_W (UI_Set_Size_Override ui pid pw ph) q = UI_Get_Size_Override_W ui q \<and>
         UI_Get_Size_Override_H (UI_Set_Size_Override ui pid pw ph) q = UI_Get_Size_Override_H ui q"
    using u o
    by (simp add: UI_Get_Size_Override_W_def UI_Get_Size_Override_H_def UI_Set_Size_Override_def)
next
  assume a: "find_override (size_overrides ui) pid = None \<and> length (size_overrides ui) < 32"
  then have u: "update_override (size_overrides ui) pid pw ph = None"
    by (simp add: update_override_None)
  show "size_overrides (UI_Set_Size_Override ui pid pw ph) =
        size_overrides ui @ [\<lparr>ov_panel_id = pid, ov_pref_w = pw, ov_pref_h = ph\<rparr>]"
    using a u by (simp add: UI_Set_Size_Override_def)
  show "UI_Get_Size_Override_W (UI_Set_Size_Override ui pid pw ph) pid = pw"
    using a u
    by (simp add: UI_Set_Size_Override_def UI_Get_Size_Override_W_def find_override_append)
  show "UI_Get_Size_Override_H (UI_Set_Size_Override ui pid pw ph) pid = ph"
    using a u
    by (simp add: UI_Set_Size_Override_def UI_Get_Size_Override_H_def find_override_append)
qed

theorem UI_Set_Size_Override_existing_witness:
  "find_override (size_overrides override_context) 7 \<noteq> None \<and>
   UI_Get_Size_Override_W (UI_Set_Size_Override override_context 7 500 (-1)) 7 = 500 \<and>
   UI_Get_Size_Override_H (UI_Set_Size_Override override_context 7 500 (-1)) 7 = 120 \<and>
   UI_Get_Size_Override_H (apply_size override_context 0 0 7 500) 7 = 120 \<and>
   find_override (size_overrides override_context) 9 = None \<and>
   UI_Get_Size_Override_W (UI_Set_Size_Override override_context 9 500 (-1)) 9 = 500 \<and>
   UI_Get_Size_Override_H (UI_Set_Size_Override override_context 9 500 (-1)) 9 = -1"
  using UI_Set_Size_Override_existing [of override_context 7 500 "-1"]
    UI_Set_Size_Override_existing [of override_context 9 500 "-1"]
  by (simp add: override_context_def zero_context_def UI_Get_Size_Override_W_def
        UI_Get_Size_Override_H_def)


section \<open>Properties of the builder\<close>

lemma Generate_frame:
  "state (fst (UI_Generate_Id ctx name)) = state ctx"
  "parent_stack (fst (UI_Generate_Id ctx name)) = parent_stack ctx"
  "interaction (fst (UI_Generate_Id ctx name)) = interaction ctx"
  "input (fst (UI_Generate_Id ctx name)) = input ctx"
  "fst (UI_Generate_Id ctx name) = ctx\<lparr>used_ids := used_ids (fst (UI_Generate_Id ctx name))\<rparr>"
  by (simp_all add: UI_Generate_Id_def Let_def split: option.splits prod.splits)

text \<open>
  Claim C6, as amended. When the arena is full, \<open>UI_Begin_Panel\<close> leaves the panel
  count, the panels and the parent stack as they are, and every other field of the
  context but the occurrence table: the id is generated before the allocation is
  tried, so the table gets the entry for the name, or the name's counter is incremented.
\<close>

theorem UI_Begin_Panel_arena_full:
  "length (panels (state ctx)) \<ge> UI_MAX_PANELS \<Longrightarrow>
   UI_Begin_Panel ctx name = ctx\<lparr>used_ids := used_ids (UI_Begin_Panel ctx name)\<rparr> \<and>
   state (UI_Begin_Panel ctx name) = state ctx \<and>
   length (panels (state (UI_Begin_Panel ctx name))) = length (panels (state ctx)) \<and>
   parent_stack (UI_Begin_Panel ctx name) = parent_stack ctx \<and>
   used_ids (UI_Begin_Panel ctx name) =
     (case bump_used_id (used_ids ctx) (UI_HashString (Some name)) of
        Some (us, k) \<Rightarrow> us
      | None \<Rightarrow> if length (used_ids ctx) < 1024
                then used_ids ctx @ [(UI_HashString (Some name), 0)] else used_ids ctx)"
  by (simp add: UI_Begin_Panel_def UI_NewPanel_def UI_Generate_Id_def Let_def
        split: option.splits prod.splits)

theorem UI_Begin_Panel_arena_full_witness:
  "length (panels (state full_context)) \<ge> UI_MAX_PANELS \<and>
   state (UI_Begin_Panel full_context ''x'') = state full_context \<and>
   parent_stack (UI_Begin_Panel full_context ''x'') = [] \<and>
   used_ids (UI_Begin_Panel full_context ''x'') = [(UI_HashString (Some ''x''), 0)]"
  using UI_Begin_Panel_arena_full [of full_context "''x''"]
  by (simp add: full_context_def zero_context_def UI_MAX_PANELS_def)

text \<open>
  Claim C6 as stated fails: on a full arena with an empty occurrence table the call
  changes the table.
\<close>

theorem UI_Begin_Panel_arena_full_mutates_used_ids:
  "length (panels (state full_context)) = 1024 \<and>
   used_ids full_context = [] \<and>
   used_ids (UI_Begin_Panel full_context ''x'') \<noteq> used_ids full_context"
  by (simp add: full_context_def zero_context_def UI_Begin_Panel_def UI_NewPanel_def
        UI_Generate_Id_def UI_MAX_PANELS_def Let_def)


section \<open>Properties of the divider resize\<close>

lemma find_panel_from_range:
  "find_panel_from ps i pid = k \<Longrightarrow> 0 \<le> i \<Longrightarrow>
   k = -1 \<or> (i \<le> k \<and> k < i + int (length ps) \<and> uid (ps ! nat (k - i)) = pid)"
proof (induction ps arbitrary: i)
  case Nil
  then show ?case by simp
next
  case (Cons p ps)
  show ?case
  proof (cases "uid p = pid")
    case True
    with Cons.prems show ?thesis by simp
  next
    case False
    with Cons.prems have "find_panel_from ps (i + 1) pid = k" by simp
    from Cons.IH [OF this] Cons.prems(2)
    have "k = -1 \<or> (i + 1 \<le> k \<and> k < i + 1 + int (length ps) \<and> uid (ps ! nat (k - (i + 1))) = pid)"
      by simp
    then show ?thesis
    proof
      assume "k = -1" then show ?thesis by simp
    next
      assume a: "i + 1 \<le> k \<and> k < i + 1 + int (length ps) \<and> uid (ps ! nat (k - (i + 1))) = pid"
      then have "nat (k - i) = Suc (nat (k - (i + 1)))" by linarith
      with a show ?thesis by simp
    qed
  qed
qed

lemma UI_Find_Panel_By_Id_range:
  "UI_Find_Panel_By_Id s pid = k \<Longrightarrow> 0 \<le> k \<Longrightarrow>
   k < int (length (panels s)) \<and> uid (panels s ! nat k) = pid"
  using find_panel_from_range [of "panels s" 0 pid k]
  by (auto simp add: UI_Find_Panel_By_Id_def)

lemma state_UI_Set_Size_Override:
  "state (UI_Set_Size_Override ui a b c) = state ui"
  by (simp add: UI_Set_Size_Override_def split: option.splits)

lemma panels_upd_panel:
  "0 \<le> i \<Longrightarrow> i < int (length (panels s)) \<Longrightarrow>
   panels (upd_panel s i f) = (panels s)[nat i := f (panels s ! nat i)]"
  by (simp add: upd_panel_def)

lemma constraints_closed_form:
  "apply_right_constraints ia rmin rmax
     (apply_left_constraints ia lmin lmax
        (drag_start_size_left ia + d, drag_start_size_right ia - d)) =
   (drag_start_size_left ia + drag_start_size_right ia -
      clamp_to rmin rmax
        (drag_start_size_right ia -
           (clamp_to lmin lmax (drag_start_size_left ia + d) - drag_start_size_left ia)),
    clamp_to rmin rmax
      (drag_start_size_right ia -
         (clamp_to lmin lmax (drag_start_size_left ia + d) - drag_start_size_left ia)))"
  by (simp add: apply_right_constraints_def apply_left_constraints_def clamp_to_def Let_def)

lemma apply_size_pref:
  assumes "0 \<le> i" "i < int (length (panels (state ui)))"
  shows "(if dir = 0 then pref_w (style (panels (state (apply_size ui dir i tid n)) ! nat i))
          else pref_h (style (panels (state (apply_size ui dir i tid n)) ! nat i))) = n"
    and "length (panels (state (apply_size ui dir i tid n))) = length (panels (state ui))"
    and "j \<noteq> i \<Longrightarrow> 0 \<le> j \<Longrightarrow> panels (state (apply_size ui dir i tid n)) ! nat j = panels (state ui) ! nat j"
  using assms
  by (auto simp add: apply_size_def Let_def panels_upd_panel state_UI_Set_Size_Override)

lemma resize_sizes_closed_form:
  assumes "0 \<le> li" "0 \<le> ri"
  shows "resize_sizes ui li ri dir =
    (let ia = interaction ui;
         sl = drag_start_size_left ia;
         sr = drag_start_size_right ia;
         delta = (if dir = 0 then mouse_x (input ui) else mouse_y (input ui)) - drag_start_pos ia;
         l = style (panels (state ui) ! nat li);
         r = style (panels (state ui) ! nat ri);
         left1 = clamp_to (axis_min dir l) (axis_max dir l) (sl + delta);
         right2 = clamp_to (axis_min dir r) (axis_max dir r) (sr - (left1 - sl))
     in (sl + sr - right2, right2))"
  using assms by (simp only: resize_sizes_def Let_def constraints_closed_form if_True)

text \<open>
  Claim C1, as amended. During a drag in which both neighbours of the divider are found,
  the resize step takes \<open>delta\<close> as the pointer position along the axis given by the
  layout direction of the divider's parent, minus \<open>drag_start_pos\<close>; clamps
  \<open>drag_start_size_left + delta\<close> to the left panel's \<open>[min, max]\<close> for that axis and
  derives the right size from it (zero-sum); then clamps that right size to the right
  panel's \<open>[min, max]\<close> and derives the final left size from the result, so the right
  clamp can override the left one. The final sizes are written to the two panels'
  preferred sizes. For a left minimum of 200 and a proposed left size of 150 the final
  left size is 200, and the right panel takes the difference, when the right size
  derived from the left clamp lies within the right panel's own \<open>[min, max]\<close>.
\<close>

theorem UI_Update_Divider_Resize_sizes:
  assumes "dragging_divider (interaction ui) \<noteq> 0"
    and "resize_target_left_id (interaction ui) \<noteq> 0"
    and "resize_target_right_id (interaction ui) \<noteq> 0"
    and "UI_Find_Panel_By_Id (state ui) (resize_target_left_id (interaction ui)) = li" and "0 \<le> li"
    and "UI_Find_Panel_By_Id (state ui) (resize_target_right_id (interaction ui)) = ri" and "0 \<le> ri"
    and "li \<noteq> ri"
    and "UI_Find_Panel_By_Id (state ui) (dragging_divider (interaction ui)) = di" and "0 \<le> di"
    and "UI_Get_Resize_Direction (state ui) di = dir" and "0 \<le> dir"
  shows
    "let ia = interaction ui;
         sl = drag_start_size_left ia;
         sr = drag_start_size_right ia;
         delta = (if dir = 0 then mouse_x (input ui) else mouse_y (input ui)) - drag_start_pos ia;
         l = style (panels (state ui) ! nat li);
         r = style (panels (state ui) ! nat ri);
         left1 = clamp_to (axis_min dir l) (axis_max dir l) (sl + delta);
         right1 = sr - (left1 - sl);
         right2 = clamp_to (axis_min dir r) (axis_max dir r) right1;
         left2 = sl + sr - right2;
         ui' = UI_Update_Divider_Resize ui
     in axis_pref dir (style (panels (state ui') ! nat li)) = left2 \<and>
        axis_pref dir (style (panels (state ui') ! nat ri)) = right2 \<and>
        (right2 = right1 \<longrightarrow> left2 = left1) \<and>
        (axis_min dir l = 200 \<and> sl + delta = 150 \<and> right2 = right1 \<longrightarrow>
           left2 = 200 \<and> right2 = sr - (200 - sl))"
proof -
  let ?ia = "interaction ui"
  let ?sl = "drag_start_size_left ?ia"
  let ?sr = "drag_start_size_right ?ia"
  let ?delta = "(if dir = 0 then mouse_x (input ui) else mouse_y (input ui)) - drag_start_pos ?ia"
  let ?l = "style (panels (state ui) ! nat li)"
  let ?r = "style (panels (state ui) ! nat ri)"
  let ?left1 = "clamp_to (axis_min dir ?l) (axis_max dir ?l) (?sl + ?delta)"
  let ?right1 = "?sr - (?left1 - ?sl)"
  let ?right2 = "clamp_to (axis_min dir ?r) (axis_max dir ?r) ?right1"
  let ?left2 = "?sl + ?sr - ?right2"
  let ?ui' = "UI_Update_Divider_Resize ui"
  have lr: "li < int (length (panels (state ui)))"
    using UI_Find_Panel_By_Id_range assms(4,5) by blast
  have rr: "ri < int (length (panels (state ui)))"
    using UI_Find_Panel_By_Id_range assms(6,7) by blast
  have sizes: "resize_sizes ui li ri dir = (?left2, ?right2)"
    using resize_sizes_closed_form [OF assms(5,7), of ui dir] by (simp only: Let_def)
  let ?u1 = "apply_size ui dir li (resize_target_left_id ?ia) ?left2"
  have ui': "?ui' = apply_size ?u1 dir ri (resize_target_right_id ?ia) ?right2"
    using assms(1-7,9-12) sizes by (simp add: UI_Update_Divider_Resize_def Let_def)
  have len1: "length (panels (state ?u1)) = length (panels (state ui))"
    using apply_size_pref(2) [OF assms(5) lr] by simp
  have r1: "ri < int (length (panels (state ?u1)))" using rr len1 by simp
  have right: "axis_pref dir (style (panels (state ?ui') ! nat ri)) = ?right2"
    unfolding ui' axis_pref_def by (rule apply_size_pref(1) [OF assms(7) r1])
  have "panels (state ?ui') ! nat li = panels (state ?u1) ! nat li"
    unfolding ui' using apply_size_pref(3) [OF assms(7) r1, of li] assms(5,8) by simp
  then have left: "axis_pref dir (style (panels (state ?ui') ! nat li)) = ?left2"
    using apply_size_pref(1) [OF assms(5) lr, of dir "resize_target_left_id ?ia" ?left2]
    by (simp add: axis_pref_def)
  have a: "?right2 = ?right1 \<longrightarrow> ?left2 = ?left1" by simp
  have b: "axis_min dir ?l = 200 \<and> ?sl + ?delta = 150 \<and> ?right2 = ?right1 \<longrightarrow>
           ?left2 = 200 \<and> ?right2 = ?sr - (200 - ?sl)"
  proof (intro impI, elim conjE)
    assume m: "axis_min dir ?l = 200" and p: "?sl + ?delta = 150" and e: "?right2 = ?right1"
    have "?left1 = 200" by (simp only: m p clamp_to_def) simp
    with e show "?left2 = 200 \<and> ?right2 = ?sr - (200 - ?sl)" by simp
  qed
  show ?thesis
    unfolding Let_def using left right a b by blast
qed

theorem UI_Update_Divider_Resize_sizes_witness:
  "pref_w (style (panels (state (UI_Update_Divider_Resize divider_context_wide)) ! 1)) = 200 \<and>
   pref_w (style (panels (state (UI_Update_Divider_Resize divider_context_wide)) ! 3)) = 350"
proof -
  have f: "UI_Find_Panel_By_Id (state divider_context_wide) 2 = 1"
    "UI_Find_Panel_By_Id (state divider_context_wide) 4 = 3"
    "UI_Find_Panel_By_Id (state divider_context_wide) 3 = 2"
    by (simp_all add: UI_Find_Panel_By_Id_def divider_context_wide_def divider_context_def
          new_panel_def)
  have d: "UI_Get_Resize_Direction (state divider_context_wide) 2 = 0"
    by (simp add: UI_Get_Resize_Direction_def divider_context_wide_def divider_context_def
          new_panel_def Let_def)
  have i: "dragging_divider (interaction divider_context_wide) = 3"
    "resize_target_left_id (interaction divider_context_wide) = 2"
    "resize_target_right_id (interaction divider_context_wide) = 4"
    by (simp_all add: divider_context_wide_def divider_context_def zero_interaction_def)
  have "dragging_divider (interaction divider_context_wide) \<noteq> 0"
    "resize_target_left_id (interaction divider_context_wide) \<noteq> 0"
    "resize_target_right_id (interaction divider_context_wide) \<noteq> 0"
    "UI_Find_Panel_By_Id (state divider_context_wide)
       (resize_target_left_id (interaction divider_context_wide)) = 1"
    "UI_Find_Panel_By_Id (state divider_context_wide)
       (resize_target_right_id (interaction divider_context_wide)) = 3"
    "UI_Find_Panel_By_Id (state divider_context_wide)
       (dragging_divider (interaction divider_context_wide)) = 2"
    using f by (simp_all add: i)
  from UI_Update_Divider_Resize_sizes [OF this(1-4) _ this(5) _ _ this(6) _ d]
  show ?thesis
    by (simp add: Let_def axis_pref_def axis_min_def axis_max_def clamp_to_def
          divider_context_wide_def divider_context_def zero_interaction_def zero_input_def
          zero_context_def new_panel_def INT32_MAX_def)
qed

text \<open>
  Claim C1 as stated fails when the right clamp applies: with the default minimum of 200
  on both sides, a left panel that started at 250 and a right one that started at 100,
  a proposed left size of 150 ends as 150, not 200, and the right panel gets its
  minimum 200.
\<close>

theorem UI_Update_Divider_Resize_right_overrides_left:
  "min_w (style (panels (state divider_context) ! 1)) = 200 \<and>
   drag_start_size_left (interaction divider_context) +
     (mouse_x (input divider_context) - drag_start_pos (interaction divider_context)) = 150 \<and>
   pref_w (style (panels (state (UI_Update_Divider_Resize divider_context)) ! 1)) = 150 \<and>
   pref_w (style (panels (state (UI_Update_Divider_Resize divider_context)) ! 3)) = 200"
  by (simp add: UI_Update_Divider_Resize_def resize_sizes_def apply_left_constraints_def
        apply_right_constraints_def apply_size_def UI_Set_Size_Override_def upd_panel_def
        UI_Find_Panel_By_Id_def UI_Get_Resize_Direction_def axis_min_def axis_max_def Let_def
        divider_context_def zero_interaction_def zero_input_def zero_context_def new_panel_def
        INT32_MAX_def)


section \<open>Properties of the single-precision arithmetic\<close>

lemma round_to_even_of_int [simp]: "round_to_even (of_int n) = n"
  by (simp add: round_to_even_def)

lemma bitlen_powi_bounds:
  fixes x :: int
  assumes "x > 0"
  shows "(2::rat) powi (bitlen x - 1) \<le> of_int x" and "of_int x < (2::rat) powi (bitlen x)"
proof -
  from assms have b1: "bitlen x \<ge> 1" by (auto simp: bitlen_alt_def)
  from bitlen_bounds [OF assms] have lo: "2 ^ nat (bitlen x - 1) \<le> x" and hi: "x < 2 ^ nat (bitlen x)"
    by simp_all
  from lo have "(of_int (2 ^ nat (bitlen x - 1)) :: rat) \<le> of_int x" by (simp only: of_int_le_iff)
  then show "(2::rat) powi (bitlen x - 1) \<le> of_int x"
    using b1 by (simp add: power_int_def)
  from hi have "(of_int x :: rat) < of_int (2 ^ nat (bitlen x))" by (simp only: of_int_less_iff)
  then show "of_int x < (2::rat) powi (bitlen x)"
    using b1 by (simp add: power_int_def)
qed

lemma f32_exponent_bounds:
  assumes "q \<noteq> 0"
  shows "2 powi (f32_exponent q) \<le> \<bar>q\<bar>" and "\<bar>q\<bar> < 2 powi (f32_exponent q + 1)"
proof -
  define a where "a = \<bar>q\<bar>"
  have a0: "a > 0" using assms by (simp add: a_def)
  have "2 powi (f32_exponent q) \<le> a \<and> a < 2 powi (f32_exponent q + 1)"
  proof (cases "a \<ge> 1")
    case True
    then have f0: "\<lfloor>a\<rfloor> > 0" by simp
    have e: "f32_exponent q = bitlen \<lfloor>a\<rfloor> - 1"
      using True by (simp add: f32_exponent_def a_def Let_def)
    from bitlen_powi_bounds [OF f0] have lo: "(2::rat) powi (bitlen \<lfloor>a\<rfloor> - 1) \<le> of_int \<lfloor>a\<rfloor>"
      and hi: "of_int \<lfloor>a\<rfloor> < (2::rat) powi (bitlen \<lfloor>a\<rfloor>)" by simp_all
    have "of_int \<lfloor>a\<rfloor> \<le> a" by simp
    with lo have l: "2 powi (bitlen \<lfloor>a\<rfloor> - 1) \<le> a" by linarith
    have b1: "bitlen \<lfloor>a\<rfloor> \<ge> 1" using f0 by (auto simp: bitlen_alt_def)
    then have pw: "(2::rat) powi (bitlen \<lfloor>a\<rfloor>) = of_int (2 ^ nat (bitlen \<lfloor>a\<rfloor>))"
      by (simp add: power_int_def)
    from hi have "\<lfloor>a\<rfloor> < 2 ^ nat (bitlen \<lfloor>a\<rfloor>)" unfolding pw by (simp only: of_int_less_iff)
    then have "a < of_int (2 ^ nat (bitlen \<lfloor>a\<rfloor>))" by (simp only: floor_less_iff)
    then have h: "a < 2 powi (bitlen \<lfloor>a\<rfloor>)" unfolding pw .
    from l h show ?thesis by (simp add: e)
  next
    case False
    then have a1: "a < 1" by simp
    define b where "b = 1 / a"
    have b1: "b > 1" using a0 a1 by (simp add: b_def)
    then have f0: "\<lfloor>b\<rfloor> > 0" by simp
    define k where "k = bitlen \<lfloor>b\<rfloor> - 1"
    have k0: "k \<ge> 0" using f0 by (auto simp: bitlen_alt_def k_def)
    from bitlen_powi_bounds [OF f0] have lo: "(2::rat) powi k \<le> of_int \<lfloor>b\<rfloor>"
      and hi: "of_int \<lfloor>b\<rfloor> < (2::rat) powi (k + 1)" by (simp_all add: k_def)
    have "of_int \<lfloor>b\<rfloor> \<le> b" by simp
    with lo have l: "2 powi k \<le> b" by linarith
    have pw: "(2::rat) powi (k + 1) = of_int (2 ^ nat (k + 1))"
      using k0 by (simp add: power_int_def)
    from hi have "\<lfloor>b\<rfloor> < 2 ^ nat (k + 1)" unfolding pw by (simp only: of_int_less_iff)
    then have "b < of_int (2 ^ nat (k + 1))" by (simp only: floor_less_iff)
    then have h: "b < 2 powi (k + 1)" unfolding pw .
    have p0: "(2::rat) powi k > 0" "(2::rat) powi (k + 1) > 0" by simp_all
    have ab: "a = 1 / b" using a0 by (simp add: b_def)
    from l p0 b1 have ub: "a \<le> 1 / 2 powi k"
      unfolding ab by (simp add: field_simps)
    from h p0 b1 have lb: "1 / 2 powi (k + 1) < a"
      unfolding ab by (simp add: field_simps)
    have m1: "1 / (2::rat) powi k = 2 powi (- k)" by (simp add: power_int_minus field_simps)
    have "- k - 1 = - (k + 1)" by simp
    then have "(2::rat) powi (- k - 1) = 2 powi (- (k + 1))" by (simp only:)
    also have "\<dots> = inverse (2 powi (k + 1))" by (rule power_int_minus)
    finally have m2: "1 / (2::rat) powi (k + 1) = 2 powi (- k - 1)"
      by (simp add: inverse_eq_divide)
    have pk: "(2::rat) powi k = 2 ^ nat k" using k0 by (simp add: power_int_def)
    have e: "f32_exponent q = (if a * 2 ^ nat k = 1 then - k else - k - 1)"
      using a1 by (simp add: f32_exponent_def a_def [symmetric] b_def [symmetric] k_def [symmetric] Let_def)
    show ?thesis
    proof (cases "a * 2 ^ nat k = 1")
      case True
      then have "a = 1 / 2 powi k" using p0 by (simp add: pk field_simps)
      then have "a = 2 powi (- k)" by (simp only: m1)
      moreover have "(2::rat) powi (- k) < 2 powi (- k + 1)"
        by (rule power_int_strict_increasing) simp_all
      ultimately show ?thesis using True by (simp add: e)
    next
      case False
      then have "a \<noteq> 1 / 2 powi k" using p0 by (simp add: pk field_simps)
      with ub have "a < 1 / 2 powi k" by simp
      then have "a < 2 powi (- k - 1 + 1)" by (simp add: m1)
      moreover from lb have "2 powi (- k - 1) \<le> a" by (simp add: m2)
      ultimately show ?thesis using False by (simp add: e)
    qed
  qed
  then show "2 powi (f32_exponent q) \<le> \<bar>q\<bar>" and "\<bar>q\<bar> < 2 powi (f32_exponent q + 1)"
    by (simp_all add: a_def)
qed

lemma powi2_less_D:
  assumes "(2::rat) powi a < 2 powi b"
  shows "a < b"
proof (rule ccontr)
  assume "\<not> a < b"
  then have "b \<le> a" by simp
  then have "(2::rat) powi b \<le> 2 powi a" by (rule power_int_increasing) simp
  with assms show False by simp
qed

lemma f32_exponent_eq:
  assumes "2 powi E \<le> \<bar>q\<bar>" "\<bar>q\<bar> < 2 powi (E + 1)"
  shows "f32_exponent q = E"
proof -
  have "(0::rat) < 2 powi E" by simp
  with assms(1) have "0 < \<bar>q\<bar>" by linarith
  then have q0: "q \<noteq> 0" by simp
  note b = f32_exponent_bounds [OF q0]
  from assms(1) b(2) have "(2::rat) powi E < 2 powi (f32_exponent q + 1)" by linarith
  then have 1: "E < f32_exponent q + 1" by (rule powi2_less_D)
  from b(1) assms(2) have "(2::rat) powi (f32_exponent q) < 2 powi (E + 1)" by linarith
  then have 2: "f32_exponent q < E + 1" by (rule powi2_less_D)
  from 1 2 show ?thesis by simp
qed

lemma f32_eval:
  assumes "2 powi E \<le> \<bar>q\<bar>" "\<bar>q\<bar> < 2 powi (E + 1)"
  shows "f32 q = of_int (round_to_even (q / 2 powi max (E - 23) (- 149))) * 2 powi max (E - 23) (- 149)"
proof -
  have "(0::rat) < 2 powi E" by simp
  with assms(1) have "0 < \<bar>q\<bar>" by linarith
  then have q0: "q \<noteq> 0" by simp
  show ?thesis using q0 by (simp add: f32_def f32_exponent_eq [OF assms] Let_def)
qed

lemma f32_representable:
  assumes q: "q = of_int m * 2 powi k" and m: "\<bar>m\<bar> < 2 ^ 24" and k: "- 149 \<le> k"
  shows "f32 q = q"
proof (cases "q = 0")
  case True
  then show ?thesis by (simp add: f32_def)
next
  case False
  define e where "e = max (f32_exponent q - 23) (- 149)"
  have "(of_int \<bar>m\<bar> :: rat) < of_int (2 ^ 24)" using m by (simp only: of_int_less_iff)
  then have "(of_int \<bar>m\<bar> :: rat) < 2 powi 24" by simp
  then have "\<bar>q\<bar> < 2 powi 24 * 2 powi k"
    unfolding q abs_mult by (simp add: abs_mult)
  then have "\<bar>q\<bar> < 2 powi (24 + k)" by (simp add: power_int_add)
  with f32_exponent_bounds(1) [OF False] have "(2::rat) powi (f32_exponent q) < 2 powi (24 + k)"
    by linarith
  then have "f32_exponent q < 24 + k" by (rule powi2_less_D)
  with k have ek: "e \<le> k" by (simp add: e_def)
  have "q / 2 powi e = of_int m * 2 powi (k - e)"
    unfolding q by (simp add: power_int_diff)
  also have "2 powi (k - e) = (of_int (2 ^ nat (k - e)) :: rat)"
    using ek by (simp add: power_int_def)
  finally have "q / 2 powi e = of_int (m * 2 ^ nat (k - e))" by simp
  then have "of_int (round_to_even (q / 2 powi e)) * 2 powi e = q / 2 powi e * 2 powi e"
    by (simp only: round_to_even_of_int)
  also have "\<dots> = q" by simp
  finally show ?thesis using False by (simp add: f32_def e_def Let_def)
qed

lemma f32_of_int:
  assumes "\<bar>n\<bar> < 2 ^ 24"
  shows "f32 (of_int n) = of_int n"
  by (rule f32_representable [where m = n and k = 0]) (use assms in simp_all)

lemma round_to_even_eq:
  assumes "\<bar>x - of_int n\<bar> < 1 / 2"
  shows "round_to_even x = n"
proof (cases "of_int n \<le> x")
  case True
  with assms have "\<lfloor>x\<rfloor> = n" by (intro floor_unique) (simp_all add: abs_if split: if_splits)
  with assms True show ?thesis by (simp add: round_to_even_def Let_def abs_if split: if_splits)
next
  case False
  with assms have "\<lfloor>x\<rfloor> = n - 1" by (intro floor_unique) (simp_all add: abs_if split: if_splits)
  with assms False show ?thesis by (simp add: round_to_even_def Let_def abs_if split: if_splits)
qed

lemma f32_seven_twelfths: "f32 (7 / 12) = 9786709 / 16777216"
  by (simp add: f32_eval [where E = "-1"] round_to_even_eq [where n = 9786709] power_int_minus)

lemma f32_seven_twelfths_of_108: "f32 (9786709 / 16777216 * 108) = 16515071 / 262144"
  by (simp add: f32_eval [where E = 5] round_to_even_eq [where n = 16515071] power_int_minus)

lemma f32_numerals [simp]: "f32 0 = 0" "f32 1 = 1"
  using f32_of_int [of 0] f32_of_int [of 1] by simp_all

text \<open>
  The share is not always the floor of the exact quotient: of 108 remaining pixels a
  child that grows 7 beside one that grows 5 gets 62, where \<open>7 / 12 * 108 = 63\<close>.
\<close>

lemma flex_share_rounds: "flex_share 7 (f32 (f32 (0 + 7) + 5)) 108 = 62"
proof -
  have s: "f32 (f32 (0 + 7) + 5) = 12"
    using f32_of_int [of 7] f32_of_int [of 12] by simp
  have r: "f32 (of_int 108) = 108" using f32_of_int [of 108] by simp
  have fl: "\<lfloor>16515071 / 262144 :: rat\<rfloor> = 62" by (rule floor_unique) simp_all
  show ?thesis
    unfolding s flex_share_def Let_def r f32_seven_twelfths f32_seven_twelfths_of_108
    by (simp add: trunc_to_int_def fl)
qed


section \<open>Properties of the layout of one container\<close>

lemma panel_at_upd_panel:
  "panel_at (upd_panel s i f) j = (if j = i then map_option f (panel_at s j) else panel_at s j)"
  by (auto simp add: panel_at_def upd_panel_def)

lemma length_upd_panel: "length (panels (upd_panel s i f)) = length (panels s)"
  by (simp add: upd_panel_def)





lemma flex_share_all:
  assumes "\<bar>r\<bar> < 2 ^ 24"
  shows "flex_share 1 1 r = r"
  using f32_of_int [OF assms] by (simp add: flex_share_def trunc_to_int_def)




section \<open>Properties of the resizable-panel helper\<close>

lemmas builder_defs =
  UI_NewPanel_def link_and_push_def UI_AddChild_def
  upd_panel_def panel_at_def UI_End_Panel_def set_top_style_def
  UI_Panel_Set_Color_def UI_Panel_Set_Size_def UI_Panel_Set_Padding_def
  UI_Panel_Set_Direction_def UI_Panel_Set_Gap_def UI_Panel_Set_Grow_def
  UI_Panel_Set_Padding_Uniform_def UI_MAX_PANELS_def

lemma begin_frame_fields:
  "state (fst (UI_BeginFrame ui w h)) = \<lparr>panels = []\<rparr>"
  "parent_stack (fst (UI_BeginFrame ui w h)) = []"
  "size_overrides (fst (UI_BeginFrame ui w h)) = size_overrides ui"
  "screen_w (fst (UI_BeginFrame ui w h)) = w"
  "screen_h (fst (UI_BeginFrame ui w h)) = h"
  by (simp_all add: UI_BeginFrame_def UI_BeginFrame_WithTime_def UI_Input_NewFrame_def Let_def)

lemma Generate_fields:
  "size_overrides (fst (UI_Generate_Id ctx nm)) = size_overrides ctx"
  "screen_w (fst (UI_Generate_Id ctx nm)) = screen_w ctx"
  "screen_h (fst (UI_Generate_Id ctx nm)) = screen_h ctx"
  by (simp_all add: UI_Generate_Id_def Let_def split: option.splits prod.splits)

lemma begin_root:
  assumes "state ctx = \<lparr>panels = []\<rparr>" "parent_stack ctx = []"
  shows "state (UI_Begin_Panel ctx rn) =
           \<lparr>panels = [(new_panel (snd (UI_Generate_Id ctx rn)))\<lparr>rect :=
               \<lparr>rx = 0, ry = 0, rw = screen_w ctx, rh = screen_h ctx\<rparr>\<rparr>]\<rparr>"
    and "parent_stack (UI_Begin_Panel ctx rn) = [0]"
    and "size_overrides (UI_Begin_Panel ctx rn) = size_overrides ctx"
  using assms
  by (simp_all add: UI_Begin_Panel_def builder_defs Generate_frame(1,2) Generate_fields Let_def case_prod_beta)

lemma begin_child:
  assumes "state ctx = \<lparr>panels = [r]\<rparr>" "parent_stack ctx = [0]" "first_child r = -1"
  shows "state (UI_Begin_Panel ctx nm) =
           \<lparr>panels = [r\<lparr>first_child := 1, last_child := 1\<rparr>,
                      (new_panel (snd (UI_Generate_Id ctx nm)))\<lparr>parent := 0, next_sibling := -1\<rparr>]\<rparr>"
    and "parent_stack (UI_Begin_Panel ctx nm) = [0, 1]"
    and "size_overrides (UI_Begin_Panel ctx nm) = size_overrides ctx"
  using assms
  by (simp_all add: UI_Begin_Panel_def builder_defs Generate_frame(1,2) Generate_fields Let_def case_prod_beta)

lemma set_top_style_fields:
  "parent_stack (set_top_style ctx f) = parent_stack ctx"
  "size_overrides (set_top_style ctx f) = size_overrides ctx"
  by (simp_all add: set_top_style_def)

lemma Get_Size_Override_cong:
  "size_overrides ctx' = size_overrides ctx \<Longrightarrow>
   UI_Get_Size_Override_W ctx' i = UI_Get_Size_Override_W ctx i \<and>
   UI_Get_Size_Override_H ctx' i = UI_Get_Size_Override_H ctx i"
  by (simp add: UI_Get_Size_Override_W_def UI_Get_Size_Override_H_def)

lemmas setter_defs =
  UI_Panel_Set_Color_def UI_Panel_Set_Size_def UI_Panel_Set_Padding_def
  UI_Panel_Set_Direction_def UI_Panel_Set_Gap_def UI_Panel_Set_Grow_def
  UI_Panel_Set_Padding_Uniform_def

lemma left_override_lookup:
  "UI_Get_Size_Override_W left_override_context (UI_HashString (Some ''left'')) = 500"
  "UI_Get_Size_Override_H left_override_context (UI_HashString (Some ''left'')) = -1"
  by (simp_all add: left_override_context_def UI_Set_Size_Override_def zero_context_def
        UI_Get_Size_Override_W_def UI_Get_Size_Override_H_def)

lemma set_top_style_state:
  "state (set_top_style ctx f) =
     (if parent_stack ctx = [] then state ctx
      else upd_panel (state ctx) (last (parent_stack ctx)) (\<lambda>q. q\<lparr>style := f (style q)\<rparr>))"
  by (simp add: set_top_style_def)

text \<open>
  Claim C4 at a default height of \<open>UI_SIZE_FLEX\<close> (\<open>-2\<close>). The store holds the width 500
  for the id of the name \<open>left\<close>, as a horizontal drag leaves it; the next frame, 1000
  by 600 pixels, builds a root (a row container) and in it the panel \<open>left\<close> through
  \<open>UI_Panel_Resizable\<close> with default width 240. The claim says that the panel is laid
  out 500 wide. The helper takes its branch commented \<open>Fixed width, flex height\<close>,
  which sets the width 500 and then \<open>flex_grow\<close> to 1; in the row the grow applies to
  the width, and \<open>UI_LayoutPanelTree\<close> gives the panel the width 1000.
\<close>

theorem UI_Panel_Resizable_flex_height_grows:
  "UI_Get_Size_Override_W left_override_context (UI_HashString (Some ''left'')) = 500 \<and>
   map_option (\<lambda>s'. rw (rect (panels s' ! 1)))
     (UI_LayoutPanelTree
        (state (UI_End_Panel (UI_End_Panel
           (UI_Panel_Resizable (UI_Begin_Panel (fst (UI_BeginFrame left_override_context 1000 600)) ''root'')
              ''left'' 1 240 (-2) 12 8 0xFF22222A)))) 0) = Some 1000"
proof -
  let ?f = "fst (UI_BeginFrame left_override_context 1000 600)"
  let ?b = "UI_Begin_Panel ?f ''root''"
  let ?r = "(new_panel (snd (UI_Generate_Id ?f ''root'')))\<lparr>rect :=
               \<lparr>rx = 0, ry = 0, rw = 1000, rh = 600\<rparr>\<rparr>"
  let ?x = "UI_Panel_Resizable ?b ''left'' 1 240 (-2) 12 8 0xFF22222A"
  have b: "state ?b = \<lparr>panels = [?r]\<rparr>" "parent_stack ?b = [0]"
    "size_overrides ?b = size_overrides left_override_context"
    using begin_root [of ?f "''root''"] by (simp_all add: begin_frame_fields)
  have fc: "first_child ?r = -1" by (simp add: new_panel_def)
  note c = begin_child [OF b(1,2) fc, of "''left''"]
  let ?d = "UI_Panel_Set_Direction (UI_Begin_Panel ?b ''left'') 1"
  have so: "size_overrides ?d = size_overrides left_override_context"
    using c(3) b(3) by (simp add: setter_defs set_top_style_fields)
  have g: "UI_Get_Size_Override_W ?d (UI_HashString (Some ''left'')) = 500"
    "UI_Get_Size_Override_H ?d (UI_HashString (Some ''left'')) = -1"
    using Get_Size_Override_cong [OF so] left_override_lookup by simp_all
  have x: "UI_Panel_Resizable ?b ''left'' 1 240 (-2) 12 8 0xFF22222A =
      UI_Panel_Set_Color (UI_Panel_Set_Gap (UI_Panel_Set_Padding_Uniform
        (UI_Panel_Set_Grow (UI_Panel_Set_Size ?d 500 (-1)) 1) 12) 8) 0xFF22222A"
    by (simp add: UI_Panel_Resizable_def Let_def g)
  have sx: "state ?x =
      \<lparr>panels = [?r\<lparr>first_child := 1, last_child := 1\<rparr>,
        (new_panel (snd (UI_Generate_Id ?b ''left'')))\<lparr>parent := 0, next_sibling := -1,
           style := (style (new_panel (snd (UI_Generate_Id ?b ''left''))))\<lparr>
              direction := 1, pref_w := 500, pref_h := -1, flex_grow := 1,
              pad_l := 12, pad_t := 12, pad_r := 12, pad_b := 12, gap := 8,
              color := 0xFF22222A\<rparr>\<rparr>]\<rparr>"
    unfolding x
    by (simp add: setter_defs set_top_style_state set_top_style_fields c upd_panel_def new_panel_def)
  have e: "state (UI_End_Panel (UI_End_Panel ?x)) = state ?x"
    by (simp add: UI_End_Panel_def)
  show ?thesis
    unfolding e sx
    by (simp add: UI_LayoutPanelTree_def UI_LayoutRow_def panel_at_def upd_panel_def new_panel_def
          child_main_size_def flex_share_all Let_def numeral_eq_Suc left_override_lookup)
qed


section \<open>Properties of the emitter\<close>

lemma emit_walk:
  "emit_tree n s g i =
     map_option (\<lambda>order. foldl emit_panel g (map (\<lambda>i. panels s ! nat i) order)) (preorder_tree n s i)"
  "emit_children n s g c =
     map_option (\<lambda>order. foldl emit_panel g (map (\<lambda>i. panels s ! nat i) order)) (preorder_children n s c)"
proof (induction n s g i and n s g c rule: emit_tree_emit_children.induct)
  case (1 s g panel_idx)
  show ?case by simp
next
  case (2 n s g panel_idx)
  show ?case
  proof (cases "panel_at s panel_idx")
    case None
    then show ?thesis by simp
  next
    case (Some p)
    then have "panels s ! nat panel_idx = p" by (simp add: panel_at_def split: if_splits)
    with Some 2 show ?thesis by (simp add: option.map_comp comp_def)
  qed
next
  case (3 s g c)
  show ?case by simp
next
  case (4 n s g c)
  show ?case
  proof (cases "c = -1")
    case True
    then show ?thesis by simp
  next
    case False
    note c = this
    show ?thesis
    proof (cases "preorder_tree n s c")
      case None
      with c 4(1) show ?thesis by simp
    next
      case (Some xs)
      with c 4(1) have t: "emit_tree n s g c = Some (foldl emit_panel g (map (\<lambda>i. panels s ! nat i) xs))"
        by simp
      show ?thesis
      proof (cases "panel_at s c")
        case None
        with c t Some show ?thesis by simp
      next
        case (Some child)
        from 4(2) [OF c t Some] c t Some \<open>preorder_tree n s c = Some xs\<close>
        show ?thesis by (simp add: option.map_comp comp_def)
      qed
    qed
  qed
qed

lemma emit_panel_Some:
  "emit_panel (Some rl) p =
     Some (rl\<lparr>rectangles := rectangles rl @
                 take (MAX_UI_RECTANGLES - length (rectangles rl))
                   (if emits_rectangle p then [panel_rectangle p] else []),
              texts := texts rl @
                 take (MAX_UI_TEXTS - length (texts rl))
                   (if emits_text p then [panel_text p] else [])\<rparr>)"
  by (simp add: emit_panel_def UI_AddRectangle_def UI_AddText_def emits_rectangle_def
        emits_text_def panel_rectangle_def panel_text_def Let_def)

lemma capped_step:
  "(xs @ take (cap - length xs) as) @ take (cap - length (xs @ take (cap - length xs) as)) ys =
   xs @ take (cap - length xs) (as @ ys)"
  by (simp add: min_def take_add)

lemma emit_list_Some:
  "foldl emit_panel (Some rl) ps =
     Some (rl\<lparr>rectangles := rectangles rl @
                 take (MAX_UI_RECTANGLES - length (rectangles rl))
                   (map panel_rectangle (filter emits_rectangle ps)),
              texts := texts rl @
                 take (MAX_UI_TEXTS - length (texts rl))
                   (map panel_text (filter emits_text ps))\<rparr>)"
proof (induction ps arbitrary: rl)
  case Nil
  show ?case by simp
next
  case (Cons p ps)
  let ?ra = "if emits_rectangle p then [panel_rectangle p] else []"
  let ?ta = "if emits_text p then [panel_text p] else []"
  have r: "map panel_rectangle (filter emits_rectangle (p # ps)) =
      ?ra @ map panel_rectangle (filter emits_rectangle ps)" by simp
  have t: "map panel_text (filter emits_text (p # ps)) =
      ?ta @ map panel_text (filter emits_text ps)" by simp
  show ?case
    unfolding r t
    by (simp only: foldl_Cons emit_panel_Some Cons.IH capped_step [symmetric])
       (simp add: capped_step)
qed

lemma emit_list_None: "foldl emit_panel None ps = None"
  by (induction ps) (simp_all add: emit_panel_def UI_AddRectangle_def UI_AddText_def)

text \<open>
  Claim C8, as amended. \<open>UI_EmitPanels\<close> returns exactly when the pre-order walk of the
  tree does, and it appends to the render list, in pre-order, the rectangle of every
  panel except the labels whose colour is fully transparent, at the panel's rect and
  with its colour, until the list holds 256 rectangles (and the text of every label
  with a non-empty text, until 256 texts). A panel that is not a label gets its
  rectangle also when its colour is fully transparent.
\<close>

theorem UI_EmitPanels_preorder:
  "UI_EmitPanels s (Some rl) panel_idx =
     map_option
       (\<lambda>ps. Some (rl\<lparr>rectangles := rectangles rl @
                          take (MAX_UI_RECTANGLES - length (rectangles rl))
                            (map panel_rectangle (filter emits_rectangle ps)),
                        texts := texts rl @
                          take (MAX_UI_TEXTS - length (texts rl))
                            (map panel_text (filter emits_text ps))\<rparr>))
       (preorder s panel_idx) \<and>
   emits_rectangle p = (is_label p = 0 \<or> color (style p) \<noteq> 0) \<and>
   panel_rectangle p =
     \<lparr>rect_left = rx (rect p), rect_top = ry (rect p),
      rect_right = rx (rect p) + rw (rect p), rect_bottom = ry (rect p) + rh (rect p),
      rect_color = color (style p)\<rparr>"
  by (auto simp add: UI_EmitPanels_def preorder_def emit_walk emit_list_Some option.map_comp
        comp_def emits_rectangle_def panel_rectangle_def)

theorem UI_EmitPanels_preorder_witness:
  "UI_EmitPanels label_example_state (Some \<lparr>rectangles = [], texts = []\<rparr>) 0 =
     Some (Some \<lparr>rectangles =
             [\<lparr>rect_left = 0, rect_top = 0, rect_right = 300, rect_bottom = 50,
               rect_color = 0xFF222222\<rparr>,
              \<lparr>rect_left = 100, rect_top = 0, rect_right = 300, rect_bottom = 50,
               rect_color = 0xFF222222\<rparr>],
           texts =
             [\<lparr>text_x = 0, text_y = 0, text_w = 100, text_h = 50, text_color = 0xFFFFFFFF,
               text_str = ''Hi'', font_size = 14, align_h = 0, align_v = 1\<rparr>]\<rparr>)"
  using UI_EmitPanels_preorder [of label_example_state "\<lparr>rectangles = [], texts = []\<rparr>" 0]
  by (simp add: preorder_def label_example_state_def new_panel_def panel_at_def numeral_eq_Suc
        emits_rectangle_def emits_text_def panel_rectangle_def panel_text_def
        MAX_UI_RECTANGLES_def MAX_UI_TEXTS_def MAX_UI_TEXT_LENGTH_def)

text \<open>
  Claim C8 as stated fails for a fully transparent panel that is not a label: its
  rectangle is appended.
\<close>

theorem UI_EmitPanels_transparent_panel:
  "is_label (panels transparent_panel_state ! 0) = 0 \<and>
   color (style (panels transparent_panel_state ! 0)) = 0 \<and>
   UI_EmitPanels transparent_panel_state (Some \<lparr>rectangles = [], texts = []\<rparr>) 0 =
     Some (Some \<lparr>rectangles =
             [\<lparr>rect_left = 10, rect_top = 20, rect_right = 40, rect_bottom = 60, rect_color = 0\<rparr>],
           texts = []\<rparr>)"
  by (simp add: UI_EmitPanels_def transparent_panel_state_def new_panel_def panel_at_def
        emit_panel_def UI_AddRectangle_def MAX_UI_RECTANGLES_def numeral_eq_Suc)


section \<open>Properties of the tree the builder leaves\<close>

text \<open>
  Every builder call keeps the arena well-formed, so the tree of every context reached
  from a frame start is well-formed: a panel is appended to the arena and linked under
  a panel allocated before it, as last child and as next sibling of the former last
  child, and the other calls leave the links alone.
\<close>

lemma panel_at_int: "k < length (panels s) \<Longrightarrow> panel_at s (int k) = Some (panels s ! k)"
  by (simp add: panel_at_def)

lemma panel_at_SomeD:
  "panel_at s i = Some p \<Longrightarrow> 0 \<le> i \<and> nat i < length (panels s) \<and> p = panels s ! nat i \<and> int (nat i) = i"
  by (auto simp add: panel_at_def split: if_splits)

lemma tree_ok_iff:
  "tree_ok s \<longleftrightarrow>
     (\<forall>i p. panel_at s i = Some p \<longrightarrow>
        parent p < i \<and>
        (first_child p = -1 \<or>
           (i < first_child p \<and> map_option parent (panel_at s (first_child p)) = Some i)) \<and>
        (next_sibling p = -1 \<or>
           (i < next_sibling p \<and>
            map_option parent (panel_at s (next_sibling p)) = Some (parent p))))"
  (is "_ \<longleftrightarrow> ?R")
proof
  assume ok: "tree_ok s"
  show ?R
  proof (intro allI impI)
    fix i p assume a: "panel_at s i = Some p"
    from panel_at_SomeD [OF a] have k: "nat i < length (panels s)" "p = panels s ! nat i"
      "int (nat i) = i" by simp_all
    from ok k(1) show "parent p < i \<and>
        (first_child p = -1 \<or>
           (i < first_child p \<and> map_option parent (panel_at s (first_child p)) = Some i)) \<and>
        (next_sibling p = -1 \<or>
           (i < next_sibling p \<and>
            map_option parent (panel_at s (next_sibling p)) = Some (parent p)))"
      unfolding tree_ok_def Let_def k(2) using k(3) by (metis (no_types, lifting))
  qed
next
  assume r: ?R
  show "tree_ok s"
    unfolding tree_ok_def Let_def
  proof (intro allI impI)
    fix k assume "k < length (panels s)"
    then have "panel_at s (int k) = Some (panels s ! k)" by (rule panel_at_int)
    from r [rule_format, OF this]
    show "parent (panels s ! k) < int k \<and>
         (first_child (panels s ! k) = - 1 \<or>
          int k < first_child (panels s ! k) \<and>
          map_option parent (panel_at s (first_child (panels s ! k))) = Some (int k)) \<and>
         (next_sibling (panels s ! k) = - 1 \<or>
          int k < next_sibling (panels s ! k) \<and>
          map_option parent (panel_at s (next_sibling (panels s ! k))) =
          Some (parent (panels s ! k)))" .
  qed
qed

lemma last_ok_iff:
  "last_ok s \<longleftrightarrow>
     (\<forall>i p. panel_at s i = Some p \<longrightarrow>
        first_child p = -1 \<or> map_option parent (panel_at s (last_child p)) = Some i)"
  (is "_ \<longleftrightarrow> ?R")
proof
  assume ok: "last_ok s"
  show ?R
  proof (intro allI impI)
    fix i p assume a: "panel_at s i = Some p"
    from panel_at_SomeD [OF a] have k: "nat i < length (panels s)" "p = panels s ! nat i"
      "int (nat i) = i" by simp_all
    from ok k(1) show "first_child p = -1 \<or>
        map_option parent (panel_at s (last_child p)) = Some i"
      unfolding last_ok_def Let_def k(2) using k(3) by (metis (no_types, lifting))
  qed
next
  assume r: ?R
  show "last_ok s"
    unfolding last_ok_def Let_def
  proof (intro allI impI)
    fix k assume "k < length (panels s)"
    then have "panel_at s (int k) = Some (panels s ! k)" by (rule panel_at_int)
    from r [rule_format, OF this]
    show "first_child (panels s ! k) = - 1 \<or>
          map_option parent (panel_at s (last_child (panels s ! k))) = Some (int k)" .
  qed
qed

lemma panel_at_append:
  "panel_at (s\<lparr>panels := panels s @ [np]\<rparr>) i =
     (if i = int (length (panels s)) then Some np else panel_at s i)"
  by (auto simp add: panel_at_def nth_append)

lemma panel_at_less: "panel_at s i = Some p \<Longrightarrow> i < int (length (panels s))"
  by (simp add: panel_at_def split: if_splits)

lemma UI_AddChild_panel_at:
  assumes ok: "tree_ok s" and lo: "last_ok s" and tpp: "panel_at s tp = Some par"
  shows "panel_at (UI_AddChild (s\<lparr>panels := panels s @ [np]\<rparr>) tp (int (length (panels s)))) i =
     (if i = int (length (panels s))
      then Some (np\<lparr>parent := tp, next_sibling := -1\<rparr>)
      else if i = tp
      then Some (if first_child par = -1
                 then par\<lparr>first_child := int (length (panels s)),
                          last_child := int (length (panels s))\<rparr>
                 else par\<lparr>last_child := int (length (panels s))\<rparr>)
      else if first_child par \<noteq> -1 \<and> i = last_child par
      then map_option (\<lambda>q. q\<lparr>next_sibling := int (length (panels s))\<rparr>) (panel_at s i)
      else panel_at s i)"
proof -
  let ?N = "int (length (panels s))"
  have tn: "tp \<noteq> ?N" using panel_at_less [OF tpp] by simp
  have lc: "last_child par \<noteq> tp \<and> last_child par \<noteq> ?N" if "first_child par \<noteq> -1"
  proof -
    from lo [unfolded last_ok_iff, rule_format, OF tpp] that
    obtain pl where pl: "panel_at s (last_child par) = Some pl" "parent pl = tp" by auto
    from ok [unfolded tree_ok_iff, rule_format, OF pl(1)] pl(2) panel_at_less [OF pl(1)]
    show ?thesis by auto
  qed
  show ?thesis
    using tpp tn lc
    by (auto simp add: UI_AddChild_def Let_def panel_at_upd_panel panel_at_append
          split: option.splits)
qed

lemma UI_AddChild_ok:
  assumes ok: "tree_ok s" and lo: "last_ok s" and tpp: "panel_at s tp = Some par"
    and np: "first_child np = -1"
  shows "tree_ok (UI_AddChild (s\<lparr>panels := panels s @ [np]\<rparr>) tp (int (length (panels s))))"
    and "last_ok (UI_AddChild (s\<lparr>panels := panels s @ [np]\<rparr>) tp (int (length (panels s))))"
proof -
  let ?N = "int (length (panels s))"
  let ?s' = "UI_AddChild (s\<lparr>panels := panels s @ [np]\<rparr>) tp ?N"
  note at = UI_AddChild_panel_at [OF ok lo tpp, of np]
  note okD = ok [unfolded tree_ok_iff, rule_format]
  note loD = lo [unfolded last_ok_iff, rule_format]
  have tn: "tp < ?N" by (rule panel_at_less [OF tpp])
  have par_old: "map_option parent (panel_at ?s' j) = Some (parent q)"
    if "panel_at s j = Some q" for j q
    using that panel_at_less [OF that] tpp by (auto simp add: at)
  have tr: "map_option parent (panel_at ?s' j) = Some v"
    if "map_option parent (panel_at s j) = Some v" for j v
  proof -
    from that obtain q where "panel_at s j = Some q" "parent q = v" by auto
    with par_old [of j q] show ?thesis by simp
  qed
  have par_new: "map_option parent (panel_at ?s' ?N) = Some tp"
    by (simp add: at)
  have lcp: "map_option parent (panel_at s (last_child par)) = Some tp \<and> last_child par < ?N"
    if "first_child par \<noteq> -1"
    using loD [OF tpp] that by (auto dest: panel_at_less)
  show "tree_ok ?s'"
    unfolding tree_ok_iff
  proof (intro allI impI)
    fix i p assume a: "panel_at ?s' i = Some p"
    consider "i = ?N" | "i \<noteq> ?N" "i = tp"
      | "i \<noteq> ?N" "i \<noteq> tp" "first_child par \<noteq> -1" "i = last_child par"
      | "i \<noteq> ?N" "i \<noteq> tp" "\<not> (first_child par \<noteq> -1 \<and> i = last_child par)"
      by blast
    then show "parent p < i \<and>
        (first_child p = -1 \<or>
           (i < first_child p \<and> map_option parent (panel_at ?s' (first_child p)) = Some i)) \<and>
        (next_sibling p = -1 \<or>
           (i < next_sibling p \<and>
            map_option parent (panel_at ?s' (next_sibling p)) = Some (parent p)))"
    proof cases
      case 1
      with a have p: "p = np\<lparr>parent := tp, next_sibling := -1\<rparr>" by (simp add: at)
      from tn np 1 show ?thesis by (simp add: p)
    next
      case 2
      from okD [OF tpp] have o: "parent par < tp"
        "first_child par = -1 \<or> (tp < first_child par \<and>
           map_option parent (panel_at s (first_child par)) = Some tp)"
        "next_sibling par = -1 \<or> (tp < next_sibling par \<and>
           map_option parent (panel_at s (next_sibling par)) = Some (parent par))"
        by simp_all
      show ?thesis
      proof (cases "first_child par = -1")
        case True
        with a 2 have p: "p = par\<lparr>first_child := ?N, last_child := ?N\<rparr>" by (simp add: at)
        from o(3) have "next_sibling par = -1 \<or> (tp < next_sibling par \<and>
           map_option parent (panel_at ?s' (next_sibling par)) = Some (parent par))"
          using tr by metis
        with o(1) tn 2 par_new show ?thesis by (simp add: p)
      next
        case False
        with a 2 have p: "p = par\<lparr>last_child := ?N\<rparr>" by (simp add: at)
        from o(2) False have "tp < first_child par \<and>
           map_option parent (panel_at ?s' (first_child par)) = Some tp"
          using tr by metis
        moreover from o(3) have "next_sibling par = -1 \<or> (tp < next_sibling par \<and>
           map_option parent (panel_at ?s' (next_sibling par)) = Some (parent par))"
          using tr by metis
        ultimately show ?thesis using o(1) 2 False by (simp add: p)
      qed
    next
      case 3
      from lcp [OF 3(3)] 3(4) obtain pl where
        pl: "panel_at s i = Some pl" "parent pl = tp" "i < ?N" by auto
      with a 3 have p: "p = pl\<lparr>next_sibling := ?N\<rparr>" by (simp add: at)
      from okD [OF pl(1)] have o: "parent pl < i"
        "first_child pl = -1 \<or> (i < first_child pl \<and>
           map_option parent (panel_at s (first_child pl)) = Some i)"
        by simp_all
      from o(2) have "first_child pl = -1 \<or> (i < first_child pl \<and>
           map_option parent (panel_at ?s' (first_child pl)) = Some i)"
          using tr by metis
      with o(1) pl par_new show ?thesis by (simp add: p)
    next
      case 4
      with a have ap: "panel_at s i = Some p" by (simp add: at)
      from okD [OF ap] have o: "parent p < i"
        "first_child p = -1 \<or> (i < first_child p \<and>
           map_option parent (panel_at s (first_child p)) = Some i)"
        "next_sibling p = -1 \<or> (i < next_sibling p \<and>
           map_option parent (panel_at s (next_sibling p)) = Some (parent p))"
        by simp_all
      from o(2) have "first_child p = -1 \<or> (i < first_child p \<and>
           map_option parent (panel_at ?s' (first_child p)) = Some i)"
          using tr by metis
      moreover from o(3) have "next_sibling p = -1 \<or> (i < next_sibling p \<and>
           map_option parent (panel_at ?s' (next_sibling p)) = Some (parent p))"
          using tr by metis
      ultimately show ?thesis using o(1) by simp
    qed
  qed
  show "last_ok ?s'"
    unfolding last_ok_iff
  proof (intro allI impI)
    fix i p assume a: "panel_at ?s' i = Some p"
    consider "i = ?N" | "i \<noteq> ?N" "i = tp"
      | "i \<noteq> ?N" "i \<noteq> tp" "first_child par \<noteq> -1" "i = last_child par"
      | "i \<noteq> ?N" "i \<noteq> tp" "\<not> (first_child par \<noteq> -1 \<and> i = last_child par)"
      by blast
    then show "first_child p = -1 \<or> map_option parent (panel_at ?s' (last_child p)) = Some i"
    proof cases
      case 1
      with a have p: "p = np\<lparr>parent := tp, next_sibling := -1\<rparr>" by (simp add: at)
      from np show ?thesis by (simp add: p)
    next
      case 2
      with a par_new show ?thesis by (auto simp add: at split: if_splits)
    next
      case 3
      from lcp [OF 3(3)] 3(4) obtain pl where
        pl: "panel_at s i = Some pl" "parent pl = tp" "i < ?N" by auto
      with a 3 have p: "p = pl\<lparr>next_sibling := ?N\<rparr>" by (simp add: at)
      from loD [OF pl(1)] have "first_child pl = -1 \<or>
          map_option parent (panel_at ?s' (last_child pl)) = Some i"
          using tr by metis
      then show ?thesis by (simp add: p)
    next
      case 4
      with a have ap: "panel_at s i = Some p" by (simp add: at)
      from loD [OF ap] show ?thesis
          using tr by metis
    qed
  qed
qed

lemma links_parent:
  assumes "map_option links (panel_at t j) = map_option links (panel_at s j)"
  shows "map_option parent (panel_at t j) = map_option parent (panel_at s j)"
  using assms by (cases "panel_at t j"; cases "panel_at s j") (simp_all add: links_def)

lemma links_ok_imp:
  assumes eq: "\<And>j. map_option links (panel_at t j) = map_option links (panel_at s j)"
  shows "tree_ok s \<Longrightarrow> tree_ok t" and "last_ok s \<Longrightarrow> last_ok t"
proof -
  have src: "\<exists>q. panel_at s i = Some q \<and> links q = links p" if "panel_at t i = Some p" for i p
    using eq [of i] that by (cases "panel_at s i") simp_all
  note par = links_parent [OF eq]
  {
    assume ok: "tree_ok s"
    show "tree_ok t"
      unfolding tree_ok_iff
    proof (intro allI impI)
      fix i p assume "panel_at t i = Some p"
      from src [OF this] obtain q where q: "panel_at s i = Some q" "links q = links p" by blast
      from ok [unfolded tree_ok_iff, rule_format, OF q(1)] q(2)
      show "parent p < i \<and>
        (first_child p = -1 \<or>
           (i < first_child p \<and> map_option parent (panel_at t (first_child p)) = Some i)) \<and>
        (next_sibling p = -1 \<or>
           (i < next_sibling p \<and>
            map_option parent (panel_at t (next_sibling p)) = Some (parent p)))"
        by (simp add: links_def par)
    qed
  }
  {
    assume lo: "last_ok s"
    show "last_ok t"
      unfolding last_ok_iff
    proof (intro allI impI)
      fix i p assume "panel_at t i = Some p"
      from src [OF this] obtain q where q: "panel_at s i = Some q" "links q = links p" by blast
      from lo [unfolded last_ok_iff, rule_format, OF q(1)] q(2)
      show "first_child p = -1 \<or> map_option parent (panel_at t (last_child p)) = Some i"
        by (simp add: links_def par)
    qed
  }
qed

lemma builder_ok_links:
  assumes eq: "\<And>j. map_option links (panel_at (state t) j) = map_option links (panel_at (state s) j)"
    and st: "set (parent_stack t) \<subseteq> set (parent_stack s)"
    and ok: "builder_ok s"
  shows "builder_ok t"
proof -
  have "panel_at (state t) i \<noteq> None" if "panel_at (state s) i \<noteq> None" for i
    using eq [of i] that by (cases "panel_at (state t) i") auto
  with st ok have "stack_ok t" by (auto simp add: builder_ok_def stack_ok_def)
  with links_ok_imp [of "state t" "state s", OF eq] ok show ?thesis
    by (simp add: builder_ok_def)
qed

lemma upd_panel_links:
  assumes "\<And>q. links (f q) = links q"
  shows "map_option links (panel_at (upd_panel s i f) j) = map_option links (panel_at s j)"
  by (cases "panel_at s j") (auto simp add: panel_at_upd_panel assms)

lemma builder_ok_BeginFrame: "builder_ok (fst (UI_BeginFrame ui w h))"
  by (simp add: builder_ok_def tree_ok_def last_ok_def stack_ok_def UI_BeginFrame_def
        UI_BeginFrame_WithTime_def UI_Input_NewFrame_def Let_def)

lemma builder_ok_set_top_style:
  assumes "builder_ok ctx"
  shows "builder_ok (set_top_style ctx f)"
proof (rule builder_ok_links [OF _ _ assms])
  show "map_option links (panel_at (state (set_top_style ctx f)) j) =
        map_option links (panel_at (state ctx) j)" for j
    by (simp add: set_top_style_def upd_panel_links links_def)
  show "set (parent_stack (set_top_style ctx f)) \<subseteq> set (parent_stack ctx)"
    by (simp add: set_top_style_def)
qed

lemma builder_ok_End_Panel:
  assumes "builder_ok ctx"
  shows "builder_ok (UI_End_Panel ctx)"
proof (rule builder_ok_links [OF _ _ assms])
  show "map_option links (panel_at (state (UI_End_Panel ctx)) j) =
        map_option links (panel_at (state ctx) j)" for j
    by (simp add: UI_End_Panel_def)
  show "set (parent_stack (UI_End_Panel ctx)) \<subseteq> set (parent_stack ctx)"
    by (auto simp add: UI_End_Panel_def dest: in_set_butlastD)
qed

lemma tree_ok_append:
  assumes ok: "tree_ok s" "last_ok s"
    and np: "parent np < int (length (panels s))" "first_child np = -1" "next_sibling np = -1"
  shows "tree_ok (s\<lparr>panels := panels s @ [np]\<rparr>)" and "last_ok (s\<lparr>panels := panels s @ [np]\<rparr>)"
proof -
  let ?t = "s\<lparr>panels := panels s @ [np]\<rparr>"
  have tr: "map_option parent (panel_at ?t j) = Some v"
    if "map_option parent (panel_at s j) = Some v" for j v
  proof -
    from that obtain q where q: "panel_at s j = Some q" "parent q = v" by auto
    from panel_at_less [OF q(1)] q show ?thesis by (simp add: panel_at_append)
  qed
  show "tree_ok ?t"
    unfolding tree_ok_iff
  proof (intro allI impI)
    fix i p assume a: "panel_at ?t i = Some p"
    show "parent p < i \<and>
        (first_child p = -1 \<or>
           (i < first_child p \<and> map_option parent (panel_at ?t (first_child p)) = Some i)) \<and>
        (next_sibling p = -1 \<or>
           (i < next_sibling p \<and>
            map_option parent (panel_at ?t (next_sibling p)) = Some (parent p)))"
    proof (cases "i = int (length (panels s))")
      case True
      with a have "p = np" by (simp add: panel_at_append)
      with np True show ?thesis by simp
    next
      case False
      with a have ap: "panel_at s i = Some p" by (simp add: panel_at_append)
      from ok(1) [unfolded tree_ok_iff, rule_format, OF ap] have o: "parent p < i"
        "first_child p = -1 \<or> (i < first_child p \<and>
           map_option parent (panel_at s (first_child p)) = Some i)"
        "next_sibling p = -1 \<or> (i < next_sibling p \<and>
           map_option parent (panel_at s (next_sibling p)) = Some (parent p))"
        by simp_all
      from o(2) have "first_child p = -1 \<or> (i < first_child p \<and>
           map_option parent (panel_at ?t (first_child p)) = Some i)"
        using tr by metis
      moreover from o(3) have "next_sibling p = -1 \<or> (i < next_sibling p \<and>
           map_option parent (panel_at ?t (next_sibling p)) = Some (parent p))"
        using tr by metis
      ultimately show ?thesis using o(1) by simp
    qed
  qed
  show "last_ok ?t"
    unfolding last_ok_iff
  proof (intro allI impI)
    fix i p assume a: "panel_at ?t i = Some p"
    show "first_child p = -1 \<or> map_option parent (panel_at ?t (last_child p)) = Some i"
    proof (cases "i = int (length (panels s))")
      case True
      with a have "p = np" by (simp add: panel_at_append)
      with np show ?thesis by simp
    next
      case False
      with a have ap: "panel_at s i = Some p" by (simp add: panel_at_append)
      from ok(2) [unfolded last_ok_iff, rule_format, OF ap] show ?thesis
        using tr by metis
    qed
  qed
qed

lemma new_panel_links:
  "parent (new_panel i) = -1" "first_child (new_panel i) = -1"
  "last_child (new_panel i) = -1" "next_sibling (new_panel i) = -1"
  by (simp_all add: new_panel_def)

lemma builder_ok_Begin_Panel_With_Id:
  assumes ok: "builder_ok ctx"
  shows "builder_ok (UI_Begin_Panel_With_Id ctx i)"
proof (cases "length (panels (state ctx)) \<ge> UI_MAX_PANELS")
  case True
  with ok show ?thesis by (simp add: UI_Begin_Panel_With_Id_def UI_NewPanel_def)
next
  case False
  let ?s = "state ctx"
  let ?N = "int (length (panels ?s))"
  let ?s1 = "?s\<lparr>panels := panels ?s @ [new_panel i]\<rparr>"
  let ?c1 = "ctx\<lparr>state := ?s1\<rparr>"
  from ok have t: "tree_ok ?s" and l: "last_ok ?s" and st: "stack_ok ctx"
    by (simp_all add: builder_ok_def)
  have res: "UI_Begin_Panel_With_Id ctx i = link_and_push ?c1 ?N"
    using False by (simp add: UI_Begin_Panel_With_Id_def UI_NewPanel_def)
  show ?thesis
  proof (cases "parent_stack ctx = []")
    case True
    let ?f = "\<lambda>q. q\<lparr>rect := \<lparr>rx = 0, ry = 0, rw = screen_w ctx, rh = screen_h ctx\<rparr>\<rparr>"
    have r: "link_and_push ?c1 ?N = ?c1\<lparr>state := upd_panel ?s1 ?N ?f, parent_stack := [?N]\<rparr>"
      using True by (simp add: link_and_push_def Let_def)
    have eq: "map_option links (panel_at (upd_panel ?s1 ?N ?f) j) = map_option links (panel_at ?s1 j)"
      for j by (rule upd_panel_links) (simp add: links_def)
    have "tree_ok ?s1" "last_ok ?s1"
      by (rule tree_ok_append [OF t l], simp_all add: new_panel_links)+
    with links_ok_imp [of "upd_panel ?s1 ?N ?f" ?s1, OF eq]
    have "tree_ok (upd_panel ?s1 ?N ?f)" "last_ok (upd_panel ?s1 ?N ?f)" by simp_all
    moreover have "panel_at (upd_panel ?s1 ?N ?f) ?N \<noteq> None"
      by (simp add: panel_at_upd_panel panel_at_append)
    ultimately show ?thesis
      unfolding res r by (simp add: builder_ok_def stack_ok_def)
  next
    case False
    let ?tp = "last (parent_stack ctx)"
    from False have "?tp \<in> set (parent_stack ctx)" by simp
    with st obtain par where par: "panel_at ?s ?tp = Some par"
      by (auto simp add: stack_ok_def)
    then have tp0: "0 \<le> ?tp" by (simp add: panel_at_def split: if_splits)
    let ?s2 = "UI_AddChild ?s1 ?tp ?N"
    have r: "link_and_push ?c1 ?N =
        ?c1\<lparr>state := ?s2,
            parent_stack := (if length (parent_stack ctx) < 32 then parent_stack ctx @ [?N]
                             else parent_stack ctx)\<rparr>"
      using False tp0 by (simp add: link_and_push_def Let_def)
    note at = UI_AddChild_panel_at [OF t l par, of "new_panel i"]
    have "tree_ok ?s2" "last_ok ?s2"
      by (rule UI_AddChild_ok [OF t l par], simp add: new_panel_links)+
    moreover have "panel_at ?s2 ?N \<noteq> None" by (simp add: at)
    moreover have "panel_at ?s2 j \<noteq> None" if "panel_at ?s j \<noteq> None" for j
      using that by (auto simp add: at)
    ultimately show ?thesis
      unfolding res r using st by (auto simp add: builder_ok_def stack_ok_def)
  qed
qed

lemma Generate_state:
  "state (fst (UI_Generate_Id ctx nm)) = state ctx"
  "parent_stack (fst (UI_Generate_Id ctx nm)) = parent_stack ctx"
  by (simp_all add: UI_Generate_Id_def Let_def split: option.splits prod.splits)

lemma builder_ok_Generate_Id:
  "builder_ok (fst (UI_Generate_Id ctx nm)) = builder_ok ctx"
  by (simp add: builder_ok_def stack_ok_def Generate_state)

lemma UI_Begin_Panel_With_Id_eq:
  "UI_Begin_Panel ctx nm =
     UI_Begin_Panel_With_Id (fst (UI_Generate_Id ctx nm)) (snd (UI_Generate_Id ctx nm))"
  by (simp add: UI_Begin_Panel_def UI_Begin_Panel_With_Id_def split: prod.splits)

lemma builder_ok_Begin_Panel:
  "builder_ok ctx \<Longrightarrow> builder_ok (UI_Begin_Panel ctx nm)"
  unfolding UI_Begin_Panel_With_Id_eq
  by (rule builder_ok_Begin_Panel_With_Id) (simp add: builder_ok_Generate_Id)

lemma builder_ok_Label:
  assumes "builder_ok ctx"
  shows "builder_ok (UI_Label ctx text_opt c)"
proof (cases text_opt)
  case None
  with assms show ?thesis by (simp add: UI_Label_def)
next
  case (Some t)
  show ?thesis
  proof (cases "measure_text ctx")
    case None
    with Some assms show ?thesis by (simp add: UI_Label_def)
  next
    case (Some m)
    let ?u2 = "UI_Panel_Set_Size (UI_Begin_Panel ctx t) (rw (m t 14) + 2) (rh (m t 14))"
    let ?f = "\<lambda>q. q\<lparr>style := (style q)\<lparr>color := 0\<rparr>, is_label := 1, label_color := c,
                     label_text := take (MAX_UI_TEXT_LENGTH - 1) t\<rparr>"
    let ?u3 = "if length (parent_stack ?u2) > 0
               then ?u2\<lparr>state := upd_panel (state ?u2) (last (parent_stack ?u2)) ?f\<rparr> else ?u2"
    have u2: "builder_ok ?u2"
      unfolding UI_Panel_Set_Size_def
      by (intro builder_ok_set_top_style builder_ok_Begin_Panel assms)
    have "builder_ok ?u3"
    proof (rule builder_ok_links [OF _ _ u2])
      show "map_option links (panel_at (state ?u3) j) = map_option links (panel_at (state ?u2) j)"
        for j by (simp add: upd_panel_links links_def)
      show "set (parent_stack ?u3) \<subseteq> set (parent_stack ?u2)" by simp
    qed
    then have "builder_ok (UI_End_Panel ?u3)" by (rule builder_ok_End_Panel)
    with \<open>text_opt = Some t\<close> Some show ?thesis by (simp add: UI_Label_def Let_def)
  qed
qed

lemma builder_ok_BeginFrame_WithTime: "builder_ok (fst (UI_BeginFrame_WithTime ui w h dt))"
  by (simp add: builder_ok_def tree_ok_def last_ok_def stack_ok_def
        UI_BeginFrame_WithTime_def UI_Input_NewFrame_def Let_def)

lemma builder_ok_Button:
  assumes "builder_ok ctx"
  shows "builder_ok (fst (UI_Button ctx t))"
proof -
  obtain u1 i where g: "UI_Generate_Id ctx t = (u1, i)" by (cases "UI_Generate_Id ctx t")
  have u1: "builder_ok u1" using builder_ok_Generate_Id [of ctx t] g assms by simp
  have u2: "builder_ok (u1\<lparr>last_button_clicked := x\<rparr>)" for x
    using u1 by (simp add: builder_ok_def stack_ok_def)
  define u2 where "u2 = (if active_widget_prev (interaction u1) = i \<and>
       UI_Is_Mouse_Released u1 UI_MOUSE_LEFT \<noteq> 0 \<and> hot_widget (interaction u1) = i
     then u1\<lparr>last_button_clicked := take (MAX_UI_TEXT_LENGTH - 1) t\<rparr> else u1)"
  define bg :: "32 word" where "bg = (if active_widget_prev (interaction u1) = i then 0xFF1A5FB4
     else if hot_widget (interaction u1) = i then 0xFF3584E4 else 0xFF2A2A2E)"
  define tc :: "32 word" where "tc = (if active_widget_prev (interaction u1) = i then 0xFFFFFFFF
     else if hot_widget (interaction u1) = i then 0xFFFFFFFF else 0xFFAAAAAA)"
  have b2: "builder_ok u2" using u1 u2 by (simp add: u2_def)
  have e: "fst (UI_Button ctx t) =
     UI_End_Panel (UI_Label (UI_Panel_Set_Direction (UI_Panel_Set_Padding
       (UI_Panel_Set_Color (UI_Panel_Set_Size (UI_Begin_Panel_With_Id u2 i) (-1) 30) bg) 8 4 8 4) 0)
       (Some t) tc)"
    unfolding UI_Button_def g Let_def prod.case fst_conv u2_def bg_def tc_def ..
  show ?thesis
    unfolding e UI_Panel_Set_Size_def UI_Panel_Set_Color_def UI_Panel_Set_Padding_def
      UI_Panel_Set_Direction_def
    by (intro builder_ok_End_Panel builder_ok_Label builder_ok_set_top_style
          builder_ok_Begin_Panel_With_Id b2)
qed

lemma built_builder_ok: "built ctx \<Longrightarrow> builder_ok ctx"
proof (induction rule: built.induct)
  case (frame ui w h dt)
  show ?case by (rule builder_ok_BeginFrame_WithTime)
next
  case (begin_panel ctx id_str)
  from this(2) show ?case by (rule builder_ok_Begin_Panel)
next
  case (begin_panel_with_id ctx i)
  from this(2) show ?case by (rule builder_ok_Begin_Panel_With_Id)
next
  case (end_panel ctx)
  from this(2) show ?case by (rule builder_ok_End_Panel)
next
  case (set_style ctx f)
  from this(2) show ?case by (rule builder_ok_set_top_style)
next
  case (label ctx text_opt c)
  from this(2) show ?case by (rule builder_ok_Label)
next
  case (button ctx t)
  from this(2) show ?case by (rule builder_ok_Button)
qed

lemma built_tree_ok: "built ctx \<Longrightarrow> tree_ok (state ctx)"
  by (drule built_builder_ok) (simp add: builder_ok_def)

lemma built_BeginFrame: "built (fst (UI_BeginFrame ui w h))"
  unfolding UI_BeginFrame_def by (rule built.frame)

lemma built_setters:
  assumes "built ctx"
  shows "built (UI_Panel_Set_Color ctx c)"
    and "built (UI_Panel_Set_Size ctx width height)"
    and "built (UI_Panel_Set_Padding ctx l t r b)"
    and "built (UI_Panel_Set_Direction ctx dir)"
    and "built (UI_Panel_Set_Gap ctx g)"
    and "built (UI_Panel_Set_Grow ctx grow)"
    and "built (UI_Panel_Set_Padding_Uniform ctx padding)"
    and "built (UI_Panel_Set_Resizable ctx r hp)"
  unfolding UI_Panel_Set_Color_def UI_Panel_Set_Size_def UI_Panel_Set_Padding_def
    UI_Panel_Set_Direction_def UI_Panel_Set_Gap_def UI_Panel_Set_Grow_def
    UI_Panel_Set_Padding_Uniform_def UI_Panel_Set_Resizable_def
  by (rule built.set_style [OF assms])+

lemma built_Panel_Resizable:
  assumes "built ctx"
  shows "built (UI_Panel_Resizable ctx id_str dir default_w default_h padding g c)"
proof -
  define u2 where "u2 = UI_Panel_Set_Direction (UI_Begin_Panel ctx id_str) dir"
  define w0 where "w0 = UI_Get_Size_Override_W u2 (UI_HashString (Some id_str))"
  define h0 where "h0 = UI_Get_Size_Override_H u2 (UI_HashString (Some id_str))"
  define w where "w = (if w0 < 0 then default_w else w0)"
  define h where "h = (if h0 < 0 then default_h else h0)"
  define u3 where "u3 =
     (if w = -2 \<or> (w < 0 \<and> default_w = -2)
      then UI_Panel_Set_Grow (if h \<ge> 0 \<and> h \<noteq> -2 then UI_Panel_Set_Size u2 (-1) h else u2) 1
      else if h = -2 \<or> (h < 0 \<and> default_h = -2)
      then UI_Panel_Set_Grow (if w \<ge> 0 then UI_Panel_Set_Size u2 w (-1) else u2) 1
      else if w \<ge> 0 \<or> h \<ge> 0 then UI_Panel_Set_Size u2 w h
      else u2)"
  define u4 where "u4 = (if padding > 0 then UI_Panel_Set_Padding_Uniform u3 padding else u3)"
  define u5 where "u5 = (if g \<ge> 0 then UI_Panel_Set_Gap u4 g else u4)"
  have e: "UI_Panel_Resizable ctx id_str dir default_w default_h padding g c =
      (if c \<noteq> 0 then UI_Panel_Set_Color u5 c else u5)"
    unfolding UI_Panel_Resizable_def Let_def u5_def u4_def u3_def h_def w_def h0_def w0_def u2_def ..
  have b2: "built u2"
    unfolding u2_def by (intro built_setters built.begin_panel assms)
  have b3: "built u3" unfolding u3_def using b2 by (simp add: built_setters)
  have b4: "built u4" unfolding u4_def using b3 by (simp add: built_setters)
  have b5: "built u5" unfolding u5_def using b4 by (simp add: built_setters)
  show ?thesis unfolding e using b5 by (simp add: built_setters)
qed


section \<open>Properties of the layout engine\<close>

lemma state_eqI:
  fixes u t :: UI_State
  assumes "\<And>i. panel_at u i = panel_at t i"
  shows "u = t"
proof -
  have len: "length (panels u) = length (panels t)"
  proof (rule ccontr)
    assume "length (panels u) \<noteq> length (panels t)"
    then consider "length (panels u) < length (panels t)" | "length (panels t) < length (panels u)"
      by linarith
    then show False
    proof cases
      case 1
      with assms [of "int (length (panels u))"] show False by (simp add: panel_at_def)
    next
      case 2
      with assms [of "int (length (panels t))"] show False by (simp add: panel_at_def)
    qed
  qed
  have "panels u = panels t"
  proof (rule nth_equalityI [OF len])
    fix k assume "k < length (panels u)"
    with assms [of "int k"] len show "panels u ! k = panels t ! k" by (simp add: panel_at_def)
  qed
  then show ?thesis by simp
qed

lemma upd_panel_id:
  "panel_at u c = Some x \<Longrightarrow> f x = x \<Longrightarrow> upd_panel u c f = u"
  by (rule state_eqI) (auto simp add: panel_at_upd_panel)

lemma shape_length: "shape u = shape s \<Longrightarrow> length (panels u) = length (panels s)"
  by (metis length_map shape_def)

lemma strip_rect_eq:
  fixes a b :: UI_Panel
  shows "a\<lparr>rect := z\<rparr> = b\<lparr>rect := z\<rparr> \<Longrightarrow> a\<lparr>rect := rect b\<rparr> = b"
  by (cases a, cases b) simp

lemma shape_panel_at:
  assumes "shape u = shape s" "panel_at s i = Some p"
  shows "\<exists>q. panel_at u i = Some q \<and> q\<lparr>rect := rect p\<rparr> = p"
proof -
  from assms(2) have r: "0 \<le> i" "i < int (length (panels s))" and p: "p = panels s ! nat i"
    by (auto simp add: panel_at_def split: if_splits)
  have l: "length (panels u) = length (panels s)" by (rule shape_length [OF assms(1)])
  from r have k: "nat i < length (panels s)" by simp
  have "shape u ! nat i = shape s ! nat i" using assms(1) by simp
  then have "(panels u ! nat i)\<lparr>rect := \<lparr>rx = 0, ry = 0, rw = 0, rh = 0\<rparr>\<rparr> =
             (panels s ! nat i)\<lparr>rect := \<lparr>rx = 0, ry = 0, rw = 0, rh = 0\<rparr>\<rparr>"
    using k l by (simp add: shape_def)
  then have "(panels u ! nat i)\<lparr>rect := rect p\<rparr> = p"
    unfolding p by (rule strip_rect_eq)
  moreover have "panel_at u i = Some (panels u ! nat i)" using r l by (simp add: panel_at_def)
  ultimately show ?thesis by blast
qed

lemma shape_upd_rect: "shape (upd_panel s c (\<lambda>q. q\<lparr>rect := r\<rparr>)) = shape s"
proof (cases "0 \<le> c \<and> c < int (length (panels s))")
  case False
  then show ?thesis by (auto simp add: upd_panel_def)
next
  case True
  let ?f = "\<lambda>p::UI_Panel. p\<lparr>rect := \<lparr>rx = 0, ry = 0, rw = 0, rh = 0\<rparr>\<rparr>"
  from True have k: "nat c < length (panels s)" by linarith
  have "(map ?f (panels s))[nat c := ?f (panels s ! nat c)] = map ?f (panels s)"
    using k by (simp add: list_update_same_conv)
  with True show ?thesis by (simp add: shape_def upd_panel_def map_update)
qed

lemma rect_update_fields:
  fixes q p :: UI_Panel
  assumes "q\<lparr>rect := r\<rparr> = p"
  shows "style q = style p" "parent q = parent p" "first_child q = first_child p"
    "next_sibling q = next_sibling p"
  using assms by (cases q; auto)+

lemma shape_panel_atE:
  assumes "shape u = shape s" "panel_at s i = Some p"
  obtains q where "panel_at u i = Some q" "style q = style p" "parent q = parent p"
    "first_child q = first_child p" "next_sibling q = next_sibling p" "q\<lparr>rect := rect p\<rparr> = p"
proof -
  from shape_panel_at [OF assms] obtain q where
    q: "panel_at u i = Some q" "q\<lparr>rect := rect p\<rparr> = p" by blast
  from rect_update_fields [OF q(2)] q that show ?thesis by blast
qed

lemma shape_panel_at_None:
  assumes "shape u = shape s" "panel_at s i = None"
  shows "panel_at u i = None"
  using assms shape_length [OF assms(1)] by (simp add: panel_at_def split: if_splits)

lemma measure_children_shape:
  "shape u = shape s \<Longrightarrow> measure_children pref n u c acc = measure_children pref n s c acc"
proof (induction n arbitrary: c acc)
  case 0
  show ?case by simp
next
  case (Suc n)
  show ?case
  proof (cases "panel_at s c")
    case None
    with shape_panel_at_None [OF Suc.prems None] show ?thesis by simp
  next
    case (Some child)
    from shape_panel_atE [OF Suc.prems Some] obtain q where
      q: "panel_at u c = Some q" "style q = style child" "next_sibling q = next_sibling child"
      by metis
    show ?thesis using Some q Suc.IH [OF Suc.prems] by (simp split: prod.splits)
  qed
qed

lemma tree_okD:
  assumes "tree_ok s" "panel_at s i = Some p"
  shows "parent p < i"
    and "first_child p = -1 \<or>
           (i < first_child p \<and> (\<exists>c. panel_at s (first_child p) = Some c \<and> parent c = i))"
    and "next_sibling p = -1 \<or>
           (i < next_sibling p \<and> (\<exists>c. panel_at s (next_sibling p) = Some c \<and> parent c = parent p))"
proof -
  from assms(2) have r: "0 \<le> i" "nat i < length (panels s)" and p: "p = panels s ! nat i"
    by (auto simp add: panel_at_def split: if_splits)
  from assms(1) r(2) have
    "let p = panels s ! nat i; i = int (nat i) in
          parent p < i \<and>
          (first_child p = -1 \<or>
             (i < first_child p \<and> map_option parent (panel_at s (first_child p)) = Some i)) \<and>
          (next_sibling p = -1 \<or>
             (i < next_sibling p \<and>
              map_option parent (panel_at s (next_sibling p)) = Some (parent p)))"
    unfolding tree_ok_def by blast
  with r(1) p have *: "parent p < i \<and>
          (first_child p = -1 \<or>
             (i < first_child p \<and> map_option parent (panel_at s (first_child p)) = Some i)) \<and>
          (next_sibling p = -1 \<or>
             (i < next_sibling p \<and>
              map_option parent (panel_at s (next_sibling p)) = Some (parent p)))"
    by (simp add: Let_def)
  from * show "parent p < i" by simp
  from * show "first_child p = -1 \<or>
           (i < first_child p \<and> (\<exists>c. panel_at s (first_child p) = Some c \<and> parent c = i))"
    by auto
  from * show "next_sibling p = -1 \<or>
           (i < next_sibling p \<and> (\<exists>c. panel_at s (next_sibling p) = Some c \<and> parent c = parent p))"
    by auto
qed

lemma place_children_frame:
  assumes "tree_ok s0" "shape s = shape s0"
    and "place_children pref mk n s g gs r c cur = Some t"
    and "c = -1 \<or> (\<exists>pc. panel_at s0 c = Some pc \<and> parent pc = q)"
  shows "shape t = shape s0 \<and>
         (\<forall>i. (c = -1 \<or> i < c \<or> (\<forall>pi. panel_at s0 i = Some pi \<longrightarrow> parent pi \<noteq> q)) \<longrightarrow>
              panel_at t i = panel_at s i)"
  using assms(2-)
proof (induction n arbitrary: s c cur)
  case 0
  then show ?case by (simp split: if_splits)
next
  case (Suc n)
  show ?case
  proof (cases "c = -1")
    case True
    with Suc.prems show ?thesis by simp
  next
    case False
    with Suc.prems(3) obtain pc where pc: "panel_at s0 c = Some pc" "parent pc = q" by blast
    from shape_panel_atE [OF Suc.prems(1) pc(1)] obtain child where
      ch: "panel_at s c = Some child" "style child = style pc"
        "next_sibling child = next_sibling pc" by metis
    define sz where "sz = child_main_size pref gs r child"
    let ?s1 = "upd_panel s c (\<lambda>q. q\<lparr>rect := mk cur sz\<rparr>)"
    have pl: "place_children pref mk n ?s1 g gs r (next_sibling child) (cur + sz + g) = Some t"
      using Suc.prems(2) False ch(1) by (simp add: Let_def sz_def)
    have sh1: "shape ?s1 = shape s0" using Suc.prems(1) by (simp add: shape_upd_rect)
    from tree_okD(1,3) [OF assms(1) pc(1)] ch(3) pc(2)
    have nx: "next_sibling child = -1 \<or>
        (c < next_sibling child \<and>
         (\<exists>c2. panel_at s0 (next_sibling child) = Some c2 \<and> parent c2 = q))"
      by simp
    then have nx': "next_sibling child = -1 \<or>
         (\<exists>c2. panel_at s0 (next_sibling child) = Some c2 \<and> parent c2 = q)" by blast
    from Suc.IH [OF sh1 pl nx'] have
      ih: "shape t = shape s0"
        "\<And>i. next_sibling child = -1 \<or> i < next_sibling child \<or>
              (\<forall>pi. panel_at s0 i = Some pi \<longrightarrow> parent pi \<noteq> q) \<Longrightarrow>
              panel_at t i = panel_at ?s1 i"
      by blast+
    have "panel_at t i = panel_at s i"
      if "i < c \<or> (\<forall>pi. panel_at s0 i = Some pi \<longrightarrow> parent pi \<noteq> q)" for i
    proof -
      from that pc have ne: "i \<noteq> c" by auto
      from that nx have "next_sibling child = -1 \<or> i < next_sibling child \<or>
              (\<forall>pi. panel_at s0 i = Some pi \<longrightarrow> parent pi \<noteq> q)" by auto
      from ih(2) [OF this] ne show ?thesis by (simp add: panel_at_upd_panel)
    qed
    with ih(1) False show ?thesis by blast
  qed
qed

lemma place_children_at_current:
  assumes "tree_ok s0" "shape s = shape s0"
    and "place_children pref mk (Suc n) s g gs r c cur = Some t"
    and "panel_at s0 c = Some pc" "parent pc = q" "panel_at s c = Some child"
  shows "panel_at t c = Some (child\<lparr>rect := mk cur (child_main_size pref gs r child)\<rparr>)"
proof -
  from assms(4) have c1: "c \<noteq> -1" by (auto simp add: panel_at_def)
  define sz where "sz = child_main_size pref gs r child"
  let ?s1 = "upd_panel s c (\<lambda>q. q\<lparr>rect := mk cur sz\<rparr>)"
  have pl: "place_children pref mk n ?s1 g gs r (next_sibling child) (cur + sz + g) = Some t"
    using assms(3,6) c1 by (simp add: Let_def sz_def)
  have sh1: "shape ?s1 = shape s0" using assms(2) by (simp add: shape_upd_rect)
  from shape_panel_atE [OF assms(2) assms(4)] assms(6)
  have nxe: "next_sibling child = next_sibling pc" by auto
  from tree_okD(3) [OF assms(1,4)] nxe assms(5)
  have nx: "next_sibling child = -1 \<or>
        (c < next_sibling child \<and>
         (\<exists>c2. panel_at s0 (next_sibling child) = Some c2 \<and> parent c2 = q))"
    by simp
  then have nx': "next_sibling child = -1 \<or>
         (\<exists>c2. panel_at s0 (next_sibling child) = Some c2 \<and> parent c2 = q)" by blast
  from place_children_frame [OF assms(1) sh1 pl nx'] nx
  have "panel_at t c = panel_at ?s1 c" by blast
  then show ?thesis using assms(6) by (simp add: panel_at_upd_panel sz_def)
qed

lemma UI_LayoutRow_axis:
  "UI_LayoutRow s p =
     layout_axis pref_w row_rect content_w (\<lambda>q. rx (rect q) + pad_l (style q)) s p"
  by (simp add: UI_LayoutRow_def layout_axis_def row_rect_def [abs_def] content_w_def Let_def
        split: option.splits prod.splits)

lemma UI_LayoutColumn_axis:
  "UI_LayoutColumn s p =
     layout_axis pref_h column_rect content_h (\<lambda>q. ry (rect q) + pad_t (style q)) s p"
  by (simp add: UI_LayoutColumn_def layout_axis_def column_rect_def [abs_def] content_h_def Let_def
        split: option.splits prod.splits)

lemma child_main_size_cong:
  "style a = style b \<Longrightarrow> child_main_size pref gs r a = child_main_size pref gs r b"
  by (simp add: child_main_size_def Let_def)

lemma place_children_fixed:
  assumes "tree_ok s0" "shape s = shape s0" "shape u = shape s0"
    and "place_children pref mk n s g gs r c cur = Some t"
    and "c = -1 \<or> (\<exists>pc. panel_at s0 c = Some pc \<and> parent pc = q)"
    and "\<forall>i pi. panel_at s0 i = Some pi \<and> parent pi = q \<longrightarrow> panel_at u i = panel_at t i"
  shows "place_children pref mk n u g gs r c cur = Some u"
  using assms(2,4,5)
proof (induction n arbitrary: s c cur)
  case 0
  then show ?case by (simp split: if_splits)
next
  case (Suc n)
  show ?case
  proof (cases "c = -1")
    case True
    then show ?thesis by simp
  next
    case False
    with Suc.prems(3) obtain pc where pc: "panel_at s0 c = Some pc" "parent pc = q" by blast
    from shape_panel_atE [OF Suc.prems(1) pc(1)] obtain child where
      ch: "panel_at s c = Some child" "style child = style pc"
        "next_sibling child = next_sibling pc" by metis
    from shape_panel_atE [OF assms(3) pc(1)] obtain cu where
      cu: "panel_at u c = Some cu" "style cu = style pc"
        "next_sibling cu = next_sibling pc" by metis
    define sz where "sz = child_main_size pref gs r child"
    have szu: "child_main_size pref gs r cu = sz"
      unfolding sz_def by (rule child_main_size_cong) (simp add: cu(2) ch(2))
    let ?s1 = "upd_panel s c (\<lambda>q. q\<lparr>rect := mk cur sz\<rparr>)"
    have pl: "place_children pref mk n ?s1 g gs r (next_sibling child) (cur + sz + g) = Some t"
      using Suc.prems(2) False ch(1) by (simp add: Let_def sz_def)
    have sh1: "shape ?s1 = shape s0" using Suc.prems(1) by (simp add: shape_upd_rect)
    from tree_okD(3) [OF assms(1) pc(1)] ch(3) pc(2)
    have nx': "next_sibling child = -1 \<or>
         (\<exists>c2. panel_at s0 (next_sibling child) = Some c2 \<and> parent c2 = q)" by auto
    have "panel_at t c = Some (child\<lparr>rect := mk cur sz\<rparr>)"
      unfolding sz_def
      by (rule place_children_at_current [OF assms(1) Suc.prems(1) Suc.prems(2) pc ch(1)])
    with assms(6) pc cu(1) have "cu = child\<lparr>rect := mk cur sz\<rparr>" by auto
    then have "cu\<lparr>rect := mk cur sz\<rparr> = cu" by simp
    then have same: "upd_panel u c (\<lambda>q. q\<lparr>rect := mk cur sz\<rparr>) = u"
      using cu(1) by (intro upd_panel_id)
    from Suc.IH [OF sh1 pl nx']
    have "place_children pref mk n u g gs r (next_sibling child) (cur + sz + g) = Some u" .
    then show ?thesis
      using False cu(1) cu(3) ch(3) szu same by (simp add: Let_def)
  qed
qed

lemma layout_axis_frame:
  assumes "tree_ok s0" "shape s = shape s0"
    and "layout_axis pref mk cs st s p = Some t"
  shows "shape t = shape s0 \<and>
         (\<forall>i. (\<forall>pi. panel_at s0 i = Some pi \<longrightarrow> parent pi \<noteq> p) \<longrightarrow> panel_at t i = panel_at s i)"
proof -
  from assms(3) obtain pp where pp: "panel_at s p = Some pp"
    by (auto simp add: layout_axis_def split: option.splits)
  from assms(3) pp obtain g gs r cur where
    pl: "place_children pref (mk pp) (length (panels s)) s g gs r (first_child pp) cur = Some t"
    by (auto simp add: layout_axis_def Let_def split: option.splits prod.splits)
  from shape_panel_atE [OF assms(2) [symmetric] pp] obtain p0 where
    p0: "panel_at s0 p = Some p0" "first_child p0 = first_child pp" by metis
  from tree_okD(2) [OF assms(1) p0(1)] p0(2)
  have fc: "first_child pp = -1 \<or> (\<exists>pc. panel_at s0 (first_child pp) = Some pc \<and> parent pc = p)"
    by auto
  from place_children_frame [OF assms(1,2) pl fc] show ?thesis by blast
qed

lemma layout_axis_fixed:
  assumes "tree_ok s0" "shape s = shape s0" "shape u = shape s0"
    and "layout_axis pref mk cs st s p = Some t"
    and "panel_at u p = panel_at s p"
    and "\<forall>i pi. panel_at s0 i = Some pi \<and> parent pi = p \<longrightarrow> panel_at u i = panel_at t i"
  shows "layout_axis pref mk cs st u p = Some u"
proof -
  from assms(4) obtain pp where pp: "panel_at s p = Some pp"
    by (auto simp add: layout_axis_def split: option.splits)
  from assms(4) pp obtain cc fs gs where
    m: "measure_children pref (length (panels s)) s (first_child pp) (0, 0, 0) = Some (cc, fs, gs)"
    by (auto simp add: layout_axis_def split: option.splits)
  define r where "r = (let gaps_total = (if cc > 1 then gap (style pp) * (cc - 1) else 0);
                    remaining0 = cs pp - fs - gaps_total
                in if remaining0 < 0 then 0 else remaining0)"
  have pl: "place_children pref (mk pp) (length (panels s)) s (gap (style pp)) gs r
              (first_child pp) (st pp) = Some t"
    using assms(4) pp m by (simp add: layout_axis_def r_def Let_def split del: if_split)
  have su: "shape u = shape s" using assms(2,3) by simp
  have len: "length (panels u) = length (panels s)" by (rule shape_length [OF su])
  have mu: "measure_children pref (length (panels s)) u (first_child pp) (0, 0, 0) = Some (cc, fs, gs)"
    using measure_children_shape [OF su] m by simp
  from shape_panel_atE [OF assms(2) [symmetric] pp] obtain p0 where
    p0: "panel_at s0 p = Some p0" "first_child p0 = first_child pp" by metis
  from tree_okD(2) [OF assms(1) p0(1)] p0(2)
  have fc: "first_child pp = -1 \<or> (\<exists>pc. panel_at s0 (first_child pp) = Some pc \<and> parent pc = p)"
    by auto
  have "place_children pref (mk pp) (length (panels s)) u (gap (style pp)) gs r
              (first_child pp) (st pp) = Some u"
    by (rule place_children_fixed [OF assms(1,2,3) pl fc assms(6)])
  then show ?thesis
    using assms(5) pp len mu by (simp add: layout_axis_def r_def Let_def split del: if_split)
qed

lemma layout_own_frame:
  assumes "tree_ok s0" "shape s = shape s0"
    and "(if d = 0 then UI_LayoutRow s p else if d = 1 then UI_LayoutColumn s p else Some s) = Some t"
  shows "shape t = shape s0 \<and>
         (\<forall>i. (\<forall>pi. panel_at s0 i = Some pi \<longrightarrow> parent pi \<noteq> p) \<longrightarrow> panel_at t i = panel_at s i)"
proof -
  consider "d = 0" | "d \<noteq> 0" "d = 1" | "d \<noteq> 0" "d \<noteq> 1" by blast
  then show ?thesis
  proof cases
    case 1
    with assms(3) show ?thesis
      using layout_axis_frame [OF assms(1,2)] by (simp add: UI_LayoutRow_axis)
  next
    case 2
    with assms(3) show ?thesis
      using layout_axis_frame [OF assms(1,2)] by (simp add: UI_LayoutColumn_axis)
  next
    case 3
    with assms(2,3) show ?thesis by simp
  qed
qed

lemma layout_own_fixed:
  assumes "tree_ok s0" "shape s = shape s0" "shape u = shape s0"
    and "(if d = 0 then UI_LayoutRow s p else if d = 1 then UI_LayoutColumn s p else Some s) = Some t"
    and "panel_at u p = panel_at s p"
    and "\<forall>i pi. panel_at s0 i = Some pi \<and> parent pi = p \<longrightarrow> panel_at u i = panel_at t i"
  shows "(if d = 0 then UI_LayoutRow u p else if d = 1 then UI_LayoutColumn u p else Some u) = Some u"
proof -
  consider "d = 0" | "d \<noteq> 0" "d = 1" | "d \<noteq> 0" "d \<noteq> 1" by blast
  then show ?thesis
  proof cases
    case 1
    with assms(4) show ?thesis
      using layout_axis_fixed [OF assms(1,2,3) _ assms(5,6)] by (simp add: UI_LayoutRow_axis)
  next
    case 2
    with assms(4) show ?thesis
      using layout_axis_fixed [OF assms(1,2,3) _ assms(5,6)] by (simp add: UI_LayoutColumn_axis)
  next
    case 3
    then show ?thesis by simp
  qed
qed

lemma parent_relI: "panel_at s i = Some p \<Longrightarrow> (i, parent p) \<in> parent_rel s"
  by (auto simp add: parent_rel_def)

lemma parent_relE:
  assumes "(i, j) \<in> parent_rel s"
  obtains p where "panel_at s i = Some p" "parent p = j"
  using assms by (auto simp add: parent_rel_def)

lemma single_valued_parent_rel: "single_valued (parent_rel s)"
  by (auto simp add: single_valued_def parent_rel_def)

lemma parent_rel_less: "tree_ok s \<Longrightarrow> (i, j) \<in> parent_rel s \<Longrightarrow> j < i"
  using tree_okD(1) by (auto simp add: parent_rel_def)

lemma parent_trancl_less:
  assumes "tree_ok s" "(i, j) \<in> (parent_rel s)\<^sup>+"
  shows "j < i"
  using assms(2)
proof (induction rule: trancl_induct)
  case (base y)
  then show ?case using parent_rel_less [OF assms(1)] by blast
next
  case (step y z)
  with parent_rel_less [OF assms(1) step(2)] show ?case by simp
qed

lemma parent_rtrancl_le:
  assumes "tree_ok s" "(i, j) \<in> (parent_rel s)\<^sup>*"
  shows "j \<le> i"
proof -
  from assms(2) have "i = j \<or> (i, j) \<in> (parent_rel s)\<^sup>+"
    by (auto simp add: rtrancl_eq_or_trancl)
  then show ?thesis
  proof
    assume "i = j" then show ?thesis by simp
  next
    assume "(i, j) \<in> (parent_rel s)\<^sup>+"
    from parent_trancl_less [OF assms(1) this] show ?thesis by simp
  qed
qed

lemma child_not_below_sibling:
  assumes "tree_ok s" "(i, p) \<in> parent_rel s" "(c, p) \<in> parent_rel s"
  shows "(i, c) \<notin> (parent_rel s)\<^sup>+"
proof
  assume "(i, c) \<in> (parent_rel s)\<^sup>+"
  then obtain z where z: "(i, z) \<in> parent_rel s" "(z, c) \<in> (parent_rel s)\<^sup>*"
    by (blast dest: tranclD)
  from single_valued_parent_rel z(1) assms(2) have "z = p" by (rule single_valuedD)
  with z(2) parent_rtrancl_le [OF assms(1)] have "c \<le> p" by blast
  with parent_rel_less [OF assms(1,3)] show False by simp
qed

lemma siblings_disjoint:
  assumes "tree_ok s" "(c1, q) \<in> parent_rel s" "(c2, q) \<in> parent_rel s" "c1 \<noteq> c2"
    and "(i, c1) \<in> (parent_rel s)\<^sup>*" "(i, c2) \<in> (parent_rel s)\<^sup>*"
  shows False
proof -
  from single_valued_confluent [OF single_valued_parent_rel assms(5,6)]
  have "(c1, c2) \<in> (parent_rel s)\<^sup>* \<or> (c2, c1) \<in> (parent_rel s)\<^sup>*" .
  with assms(4) have "(c1, c2) \<in> (parent_rel s)\<^sup>+ \<or> (c2, c1) \<in> (parent_rel s)\<^sup>+"
    by (auto simp add: rtrancl_eq_or_trancl)
  then show False
    using child_not_below_sibling [OF assms(1) assms(2) assms(3)]
      child_not_below_sibling [OF assms(1) assms(3) assms(2)] by blast
qed

lemma layout_children_end: "layout_children n s (-1) = Some s"
  by (cases n) simp_all

lemma layout_tree_SucE:
  assumes "layout_tree (Suc n) s p = Some t"
  obtains pp where "panel_at s p = Some pp" "first_child pp = -1" "t = s"
  | pp s1 where "panel_at s p = Some pp" "first_child pp \<noteq> -1"
      "(if direction (style pp) = 0 then UI_LayoutRow s p
        else if direction (style pp) = 1 then UI_LayoutColumn s p else Some s) = Some s1"
      "layout_children n s1 (first_child pp) = Some t"
  using assms by (auto split: option.splits if_splits)

lemma layout_children_SucE:
  assumes "layout_children (Suc n) s c = Some t" "c \<noteq> -1"
  obtains s2 child where "layout_tree n s c = Some s2" "panel_at s2 c = Some child"
      "layout_children n s2 (next_sibling child) = Some t"
  using assms by (auto split: option.splits if_splits)

lemma layout_frame:
  assumes ok: "tree_ok s0"
  shows "(\<forall>s p t. shape s = shape s0 \<longrightarrow> layout_tree n s p = Some t \<longrightarrow>
            shape t = shape s0 \<and>
            (\<forall>i. (i, p) \<notin> (parent_rel s0)\<^sup>+ \<longrightarrow> panel_at t i = panel_at s i)) \<and>
         (\<forall>s c q t. shape s = shape s0 \<longrightarrow> layout_children n s c = Some t \<longrightarrow>
            (c = -1 \<or> (c, q) \<in> parent_rel s0) \<longrightarrow>
            shape t = shape s0 \<and>
            (\<forall>i. (c = -1 \<or> (\<forall>c'. c \<le> c' \<and> (c', q) \<in> parent_rel s0 \<longrightarrow>
                                (i, c') \<notin> (parent_rel s0)\<^sup>+)) \<longrightarrow>
                 panel_at t i = panel_at s i))"
proof (induction n)
  case 0
  show ?case by (auto split: if_splits)
next
  case (Suc n)
  note ih_tree = Suc.IH [THEN conjunct1, rule_format]
  note ih_children = Suc.IH [THEN conjunct2, rule_format]
  have tree: "shape t = shape s0 \<and>
            (\<forall>i. (i, p) \<notin> (parent_rel s0)\<^sup>+ \<longrightarrow> panel_at t i = panel_at s i)"
    if sh: "shape s = shape s0" and lt: "layout_tree (Suc n) s p = Some t" for s p t
    using lt
  proof (cases rule: layout_tree_SucE)
    case (1 pp)
    with sh show ?thesis by simp
  next
    case (2 pp s1)
    from layout_own_frame [OF ok sh 2(3)] have
      sh1: "shape s1 = shape s0" and
      f1: "\<And>i. (\<forall>pi. panel_at s0 i = Some pi \<longrightarrow> parent pi \<noteq> p) \<Longrightarrow> panel_at s1 i = panel_at s i"
      by blast+
    from shape_panel_atE [OF sh [symmetric] 2(1)] obtain p0 where
      p0: "panel_at s0 p = Some p0" "first_child p0 = first_child pp" by metis
    from tree_okD(2) [OF ok p0(1)] p0(2) 2(2)
    have fc: "(first_child pp, p) \<in> parent_rel s0" by (auto simp add: parent_rel_def)
    from ih_children [OF sh1 2(4), of p] fc have
      sht: "shape t = shape s0" and
      f2: "\<And>i. (\<forall>c'. first_child pp \<le> c' \<and> (c', p) \<in> parent_rel s0 \<longrightarrow>
                 (i, c') \<notin> (parent_rel s0)\<^sup>+) \<Longrightarrow> panel_at t i = panel_at s1 i"
      by blast+
    have "panel_at t i = panel_at s i" if ni: "(i, p) \<notin> (parent_rel s0)\<^sup>+" for i
    proof -
      have a: "\<forall>pi. panel_at s0 i = Some pi \<longrightarrow> parent pi \<noteq> p"
        using ni by (auto dest: parent_relI)
      have b: "\<forall>c'. first_child pp \<le> c' \<and> (c', p) \<in> parent_rel s0 \<longrightarrow>
                 (i, c') \<notin> (parent_rel s0)\<^sup>+"
        using ni by (auto dest: trancl_into_trancl)
      from f1 [OF a] f2 [OF b] show ?thesis by simp
    qed
    with sht show ?thesis by blast
  qed
  have children: "shape t = shape s0 \<and>
            (\<forall>i. (c = -1 \<or> (\<forall>c'. c \<le> c' \<and> (c', q) \<in> parent_rel s0 \<longrightarrow>
                                (i, c') \<notin> (parent_rel s0)\<^sup>+)) \<longrightarrow>
                 panel_at t i = panel_at s i)"
    if sh: "shape s = shape s0" and lc: "layout_children (Suc n) s c = Some t"
      and cq: "c = -1 \<or> (c, q) \<in> parent_rel s0" for s c q t
  proof (cases "c = -1")
    case True
    with lc sh show ?thesis by simp
  next
    case False
    with cq have cq': "(c, q) \<in> parent_rel s0" by simp
    then obtain pc where pc: "panel_at s0 c = Some pc" "parent pc = q" by (rule parent_relE)
    from lc False obtain s2 child where
      lt: "layout_tree n s c = Some s2" and ch: "panel_at s2 c = Some child" and
      lc2: "layout_children n s2 (next_sibling child) = Some t"
      by (rule layout_children_SucE)
    from ih_tree [OF sh lt] have
      sh2: "shape s2 = shape s0" and
      f1: "\<And>i. (i, c) \<notin> (parent_rel s0)\<^sup>+ \<Longrightarrow> panel_at s2 i = panel_at s i"
      by blast+
    from shape_panel_atE [OF sh2 pc(1)] ch have nxe: "next_sibling child = next_sibling pc"
      by auto
    from tree_okD(3) [OF ok pc(1)] nxe pc(2)
    have nx: "next_sibling child = -1 \<or>
        (c < next_sibling child \<and> (next_sibling child, q) \<in> parent_rel s0)"
      by (auto simp add: parent_rel_def)
    then have nx': "next_sibling child = -1 \<or> (next_sibling child, q) \<in> parent_rel s0" by blast
    from ih_children [OF sh2 lc2 nx'] have
      sht: "shape t = shape s0" and
      f2: "\<And>i. next_sibling child = -1 \<or>
             (\<forall>c'. next_sibling child \<le> c' \<and> (c', q) \<in> parent_rel s0 \<longrightarrow>
                 (i, c') \<notin> (parent_rel s0)\<^sup>+) \<Longrightarrow> panel_at t i = panel_at s2 i"
      by blast+
    have "panel_at t i = panel_at s i"
      if ni: "\<forall>c'. c \<le> c' \<and> (c', q) \<in> parent_rel s0 \<longrightarrow> (i, c') \<notin> (parent_rel s0)\<^sup>+" for i
    proof -
      from ni cq' have a: "(i, c) \<notin> (parent_rel s0)\<^sup>+" by auto
      from ni nx have b: "next_sibling child = -1 \<or>
             (\<forall>c'. next_sibling child \<le> c' \<and> (c', q) \<in> parent_rel s0 \<longrightarrow>
                 (i, c') \<notin> (parent_rel s0)\<^sup>+)" by auto
      from f1 [OF a] f2 [OF b] show ?thesis by simp
    qed
    with sht False show ?thesis by blast
  qed
  from tree children show ?case by blast
qed

lemmas layout_tree_frame = layout_frame [THEN conjunct1, rule_format]
lemmas layout_children_frame = layout_frame [THEN conjunct2, rule_format]

lemma layout_fixed:
  assumes ok: "tree_ok s0"
  shows "(\<forall>s p t u. shape s = shape s0 \<longrightarrow> layout_tree n s p = Some t \<longrightarrow>
            shape u = shape s0 \<longrightarrow>
            (\<forall>i. (i, p) \<in> (parent_rel s0)\<^sup>* \<longrightarrow> panel_at u i = panel_at t i) \<longrightarrow>
            layout_tree n u p = Some u) \<and>
         (\<forall>s c q t u. shape s = shape s0 \<longrightarrow> layout_children n s c = Some t \<longrightarrow>
            (c = -1 \<or> (c, q) \<in> parent_rel s0) \<longrightarrow>
            shape u = shape s0 \<longrightarrow>
            (\<forall>i c'. c \<le> c' \<and> (c', q) \<in> parent_rel s0 \<and> (i, c') \<in> (parent_rel s0)\<^sup>* \<longrightarrow>
                 panel_at u i = panel_at t i) \<longrightarrow>
            layout_children n u c = Some u)"
proof (induction n)
  case 0
  show ?case by (auto split: if_splits)
next
  case (Suc n)
  note ih_tree = Suc.IH [THEN conjunct1, rule_format]
  note ih_children = Suc.IH [THEN conjunct2, rule_format]
  have tree: "layout_tree (Suc n) u p = Some u"
    if sh: "shape s = shape s0" and lt: "layout_tree (Suc n) s p = Some t"
      and shu: "shape u = shape s0"
      and ag: "\<And>i. (i, p) \<in> (parent_rel s0)\<^sup>* \<Longrightarrow> panel_at u i = panel_at t i"
    for s p t u
  proof -
    have "(p, p) \<notin> (parent_rel s0)\<^sup>+"
      using parent_trancl_less [OF ok, of p p] by auto
    from layout_tree_frame [OF ok sh lt] this have tp: "panel_at t p = panel_at s p" by blast
    with ag [of p] have up: "panel_at u p = panel_at s p" by simp
    from lt show ?thesis
    proof (cases rule: layout_tree_SucE)
      case (1 pp)
      with up show ?thesis by simp
    next
      case (2 pp s1)
      from layout_own_frame [OF ok sh 2(3)] have sh1: "shape s1 = shape s0" by blast
      from shape_panel_atE [OF sh [symmetric] 2(1)] obtain p0 where
        p0: "panel_at s0 p = Some p0" "first_child p0 = first_child pp" by metis
      from tree_okD(2) [OF ok p0(1)] p0(2) 2(2)
      have fc: "(first_child pp, p) \<in> parent_rel s0" by (auto simp add: parent_rel_def)
      have agree1: "\<forall>i pi. panel_at s0 i = Some pi \<and> parent pi = p \<longrightarrow>
                      panel_at u i = panel_at s1 i"
      proof (intro allI impI)
        fix i pi assume a: "panel_at s0 i = Some pi \<and> parent pi = p"
        then have ip: "(i, p) \<in> parent_rel s0" by (auto dest: parent_relI)
        then have "panel_at u i = panel_at t i" by (intro ag) blast
        moreover have "panel_at t i = panel_at s1 i"
          using layout_children_frame [OF ok sh1 2(4), of p] fc
            child_not_below_sibling [OF ok ip] by blast
        ultimately show "panel_at u i = panel_at s1 i" by simp
      qed
      have own: "(if direction (style pp) = 0 then UI_LayoutRow u p
        else if direction (style pp) = 1 then UI_LayoutColumn u p else Some u) = Some u"
        by (rule layout_own_fixed [OF ok sh shu 2(3) up agree1])
      have "layout_children n u (first_child pp) = Some u"
      proof (rule ih_children [OF sh1 2(4) _ shu, of p])
        show "first_child pp = -1 \<or> (first_child pp, p) \<in> parent_rel s0" using fc by simp
      next
        fix i c'
        assume "first_child pp \<le> c' \<and> (c', p) \<in> parent_rel s0 \<and> (i, c') \<in> (parent_rel s0)\<^sup>*"
        then have "(i, p) \<in> (parent_rel s0)\<^sup>*" by (auto intro: rtrancl_into_rtrancl)
        then show "panel_at u i = panel_at t i" by (rule ag)
      qed
      with own up 2(1,2) show ?thesis by simp
    qed
  qed
  have children: "layout_children (Suc n) u c = Some u"
    if sh: "shape s = shape s0" and lc: "layout_children (Suc n) s c = Some t"
      and cq: "c = -1 \<or> (c, q) \<in> parent_rel s0"
      and shu: "shape u = shape s0"
      and ag: "\<And>i c'. c \<le> c' \<and> (c', q) \<in> parent_rel s0 \<and> (i, c') \<in> (parent_rel s0)\<^sup>* \<Longrightarrow>
                 panel_at u i = panel_at t i"
    for s c q t u
  proof (cases "c = -1")
    case True
    then show ?thesis by simp
  next
    case False
    with cq have cq': "(c, q) \<in> parent_rel s0" by simp
    then obtain pc where pc: "panel_at s0 c = Some pc" "parent pc = q" by (rule parent_relE)
    from lc False obtain s2 child where
      lt: "layout_tree n s c = Some s2" and ch: "panel_at s2 c = Some child" and
      lc2: "layout_children n s2 (next_sibling child) = Some t"
      by (rule layout_children_SucE)
    from layout_tree_frame [OF ok sh lt] have sh2: "shape s2 = shape s0" by blast
    from shape_panel_atE [OF sh2 pc(1)] ch have nxe: "next_sibling child = next_sibling pc"
      by auto
    from tree_okD(3) [OF ok pc(1)] nxe pc(2)
    have nx: "next_sibling child = -1 \<or>
        (c < next_sibling child \<and> (next_sibling child, q) \<in> parent_rel s0)"
      by (auto simp add: parent_rel_def)
    then have nx': "next_sibling child = -1 \<or> (next_sibling child, q) \<in> parent_rel s0" by blast
    have below: "panel_at u i = panel_at s2 i" if ic: "(i, c) \<in> (parent_rel s0)\<^sup>*" for i
    proof -
      have "panel_at u i = panel_at t i" using ag [of c i] cq' ic by simp
      moreover have "panel_at t i = panel_at s2 i"
      proof (cases "next_sibling child = -1")
        case True
        with lc2 show ?thesis by (simp add: layout_children_end)
      next
        case False
        have "\<forall>c'. next_sibling child \<le> c' \<and> (c', q) \<in> parent_rel s0 \<longrightarrow>
                 (i, c') \<notin> (parent_rel s0)\<^sup>+"
        proof (intro allI impI notI)
          fix c'
          assume a: "next_sibling child \<le> c' \<and> (c', q) \<in> parent_rel s0"
            and b: "(i, c') \<in> (parent_rel s0)\<^sup>+"
          from a nx False have "c \<noteq> c'" by auto
          from b have "(i, c') \<in> (parent_rel s0)\<^sup>*" by (rule trancl_into_rtrancl)
          with siblings_disjoint [OF ok cq' _ \<open>c \<noteq> c'\<close> ic] a show False by blast
        qed
        with layout_children_frame [OF ok sh2 lc2 nx'] show ?thesis by blast
      qed
      ultimately show ?thesis by simp
    qed
    have t1: "layout_tree n u c = Some u"
      by (rule ih_tree [OF sh lt shu]) (rule below)
    from below [of c] ch have uc: "panel_at u c = Some child" by simp
    have "layout_children n u (next_sibling child) = Some u"
    proof (cases "next_sibling child = -1")
      case True
      then show ?thesis by (simp add: layout_children_end)
    next
      case False
      show ?thesis
      proof (rule ih_children [OF sh2 lc2 nx' shu])
        fix i c'
        assume a: "next_sibling child \<le> c' \<and> (c', q) \<in> parent_rel s0 \<and>
                   (i, c') \<in> (parent_rel s0)\<^sup>*"
        with nx False have "c \<le> c'" by auto
        with a ag [of c' i] show "panel_at u i = panel_at t i" by simp
      qed
    qed
    with False t1 uc show ?thesis by simp
  qed
  from tree children show ?case by blast
qed

lemmas layout_tree_fixed = layout_fixed [THEN conjunct1, rule_format]

lemma measure_children_total:
  assumes "tree_ok s0" "shape s = shape s0"
    and "c = -1 \<or> ((\<exists>pc. panel_at s0 c = Some pc) \<and> int (length (panels s0)) \<le> int n + c)"
  shows "measure_children pref n s c acc \<noteq> None"
  using assms(3)
proof (induction n arbitrary: c acc)
  case 0
  have "c = -1"
  proof (rule ccontr)
    assume "c \<noteq> -1"
    with 0 obtain pc where "panel_at s0 c = Some pc" "int (length (panels s0)) \<le> c" by auto
    then show False by (simp add: panel_at_def split: if_splits)
  qed
  then show ?case by simp
next
  case (Suc n)
  show ?case
  proof (cases "c = -1")
    case True
    then show ?thesis by simp
  next
    case False
    with Suc.prems obtain pc where pc: "panel_at s0 c = Some pc"
      and n: "int (length (panels s0)) \<le> int (Suc n) + c" by blast
    from shape_panel_atE [OF assms(2) pc] obtain child where
      ch: "panel_at s c = Some child" "next_sibling child = next_sibling pc" by metis
    from tree_okD(3) [OF assms(1) pc] ch(2) n
    have "next_sibling child = -1 \<or>
          ((\<exists>pc. panel_at s0 (next_sibling child) = Some pc) \<and>
           int (length (panels s0)) \<le> int n + next_sibling child)"
      by auto
    from Suc.IH [OF this] False ch(1) show ?thesis by (simp split: prod.splits)
  qed
qed

lemma place_children_total:
  assumes "tree_ok s0" "shape s = shape s0"
    and "c = -1 \<or> ((\<exists>pc. panel_at s0 c = Some pc) \<and> int (length (panels s0)) \<le> int n + c)"
  shows "place_children pref mk n s g gs r c cur \<noteq> None"
  using assms(2,3)
proof (induction n arbitrary: s c cur)
  case 0
  have "c = -1"
  proof (rule ccontr)
    assume "c \<noteq> -1"
    with 0 obtain pc where "panel_at s0 c = Some pc" "int (length (panels s0)) \<le> c" by auto
    then show False by (simp add: panel_at_def split: if_splits)
  qed
  then show ?case by simp
next
  case (Suc n)
  show ?case
  proof (cases "c = -1")
    case True
    then show ?thesis by simp
  next
    case False
    with Suc.prems obtain pc where pc: "panel_at s0 c = Some pc"
      and n: "int (length (panels s0)) \<le> int (Suc n) + c" by blast
    from shape_panel_atE [OF Suc.prems(1) pc] obtain child where
      ch: "panel_at s c = Some child" "next_sibling child = next_sibling pc" by metis
    from tree_okD(3) [OF assms(1) pc] ch(2) n
    have nx: "next_sibling child = -1 \<or>
          ((\<exists>pc. panel_at s0 (next_sibling child) = Some pc) \<and>
           int (length (panels s0)) \<le> int n + next_sibling child)"
      by auto
    have sh1: "shape (upd_panel s c (\<lambda>q. q\<lparr>rect :=
                 mk cur (child_main_size pref gs r child)\<rparr>)) = shape s0"
      using Suc.prems(1) by (simp add: shape_upd_rect)
    from Suc.IH [OF sh1 nx] False ch(1) show ?thesis by (simp add: Let_def)
  qed
qed

lemma layout_axis_total:
  assumes "tree_ok s0" "shape s = shape s0" "panel_at s p = Some pp"
  shows "layout_axis pref mk cs st s p \<noteq> None"
proof -
  have len: "length (panels s) = length (panels s0)" by (rule shape_length [OF assms(2)])
  from shape_panel_atE [OF assms(2) [symmetric] assms(3)] obtain p0 where
    p0: "panel_at s0 p = Some p0" "first_child p0 = first_child pp" by metis
  from tree_okD(1,2) [OF assms(1) p0(1)] p0(2)
  have fc: "first_child pp = -1 \<or>
        ((\<exists>pc. panel_at s0 (first_child pp) = Some pc) \<and>
         int (length (panels s0)) \<le> int (length (panels s)) + first_child pp)"
    using len by (auto simp add: panel_at_def split: if_splits)
  from measure_children_total [OF assms(1,2) fc] obtain cc fs gs where
    m: "measure_children pref (length (panels s)) s (first_child pp) (0, 0, 0) = Some (cc, fs, gs)"
    by (metis not_None_eq prod_cases3)
  from place_children_total [OF assms(1,2) fc] m assms(3) show ?thesis
    by (simp add: layout_axis_def Let_def)
qed

lemma layout_own_total:
  assumes "tree_ok s0" "shape s = shape s0" "panel_at s p = Some pp"
  shows "(if d = 0 then UI_LayoutRow s p else if d = 1 then UI_LayoutColumn s p else Some s) \<noteq> None"
  using layout_axis_total [OF assms]
  by (simp add: UI_LayoutRow_axis UI_LayoutColumn_axis)

lemma layout_total:
  assumes ok: "tree_ok s0"
  shows "(\<forall>s p. shape s = shape s0 \<longrightarrow> (\<exists>pp. panel_at s0 p = Some pp) \<longrightarrow>
            2 * (int (length (panels s0)) - p) \<le> int n \<longrightarrow> layout_tree n s p \<noteq> None) \<and>
         (\<forall>s c. shape s = shape s0 \<longrightarrow>
            (c = -1 \<or> ((\<exists>pc. panel_at s0 c = Some pc) \<and>
                        2 * (int (length (panels s0)) - c) + 1 \<le> int n)) \<longrightarrow>
            layout_children n s c \<noteq> None)"
proof (induction n)
  case 0
  show ?case by (auto simp add: panel_at_def split: if_splits)
next
  case (Suc n)
  note ih_tree = Suc.IH [THEN conjunct1, rule_format]
  note ih_children = Suc.IH [THEN conjunct2, rule_format]
  have tree: "layout_tree (Suc n) s p \<noteq> None"
    if sh: "shape s = shape s0" and p0: "panel_at s0 p = Some p0"
      and n: "2 * (int (length (panels s0)) - p) \<le> int (Suc n)" for s p p0
  proof -
    from shape_panel_atE [OF sh p0] obtain pp where
      pp: "panel_at s p = Some pp" "first_child pp = first_child p0" by metis
    show ?thesis
    proof (cases "first_child pp = -1")
      case True
      with pp show ?thesis by simp
    next
      case False
      from layout_own_total [OF ok sh pp(1), of "direction (style pp)"] obtain s1 where
        own: "(if direction (style pp) = 0 then UI_LayoutRow s p
               else if direction (style pp) = 1 then UI_LayoutColumn s p else Some s) = Some s1"
        by blast
      from layout_own_frame [OF ok sh own] have sh1: "shape s1 = shape s0" by blast
      from tree_okD(2) [OF ok p0] pp(2) False n
      have "first_child pp = -1 \<or> ((\<exists>pc. panel_at s0 (first_child pp) = Some pc) \<and>
                        2 * (int (length (panels s0)) - first_child pp) + 1 \<le> int n)"
        by auto
      from ih_children [OF sh1 this] own pp(1) False show ?thesis by simp
    qed
  qed
  have children: "layout_children (Suc n) s c \<noteq> None"
    if sh: "shape s = shape s0"
      and c: "c = -1 \<or> ((\<exists>pc. panel_at s0 c = Some pc) \<and>
                        2 * (int (length (panels s0)) - c) + 1 \<le> int (Suc n))" for s c
  proof (cases "c = -1")
    case True
    then show ?thesis by simp
  next
    case False
    with c obtain pc where pc: "panel_at s0 c = Some pc"
      and n: "2 * (int (length (panels s0)) - c) + 1 \<le> int (Suc n)" by blast
    from n have "2 * (int (length (panels s0)) - c) \<le> int n" by simp
    from ih_tree [OF sh _ this] pc obtain s2 where lt: "layout_tree n s c = Some s2" by blast
    from layout_tree_frame [OF ok sh lt] have sh2: "shape s2 = shape s0" by blast
    from shape_panel_atE [OF sh2 pc] obtain child where
      ch: "panel_at s2 c = Some child" "next_sibling child = next_sibling pc" by metis
    from tree_okD(3) [OF ok pc] ch(2) n
    have "next_sibling child = -1 \<or> ((\<exists>pc. panel_at s0 (next_sibling child) = Some pc) \<and>
                        2 * (int (length (panels s0)) - next_sibling child) + 1 \<le> int n)"
      by auto
    from ih_children [OF sh2 this] False lt ch(1) show ?thesis by simp
  qed
  from tree children show ?case by blast
qed

text \<open>
  Claim C9. For every well-formed panel tree with a root, \<open>UI_LayoutPanelTree\<close> on the
  root returns, and a second call on the result returns the result itself: every
  panel keeps exactly the rect of the first pass. Every tree left by the builder is
  well-formed (\<open>built_tree_ok\<close>).
\<close>

theorem UI_LayoutPanelTree_idempotent:
  assumes "tree_ok s" "panels s \<noteq> []"
  shows "\<exists>t. UI_LayoutPanelTree s 0 = Some t \<and> UI_LayoutPanelTree t 0 = Some t"
proof -
  have p0: "\<exists>pp. panel_at s 0 = Some pp" using assms(2) by (simp add: panel_at_def)
  have "layout_tree (2 * length (panels s)) s 0 \<noteq> None"
    by (rule layout_total [OF assms(1), THEN conjunct1, rule_format, OF refl p0]) simp
  then obtain t where t: "layout_tree (2 * length (panels s)) s 0 = Some t" by blast
  from layout_tree_frame [OF assms(1) refl t] have sh: "shape t = shape s" by blast
  have "layout_tree (2 * length (panels s)) t 0 = Some t"
    by (rule layout_tree_fixed [OF assms(1) refl t sh]) simp
  with t shape_length [OF sh] show ?thesis by (simp add: UI_LayoutPanelTree_def)
qed

lemma built_example_state:
  "state built_example =
     \<lparr>panels =
        [(new_panel 1)\<lparr>first_child := 1, last_child := 2,
                       rect := \<lparr>rx = 0, ry = 0, rw = 300, rh = 50\<rparr>\<rparr>,
         (new_panel 2)\<lparr>parent := 0, next_sibling := 2,
                       style := (style (new_panel 2))\<lparr>pref_w := 100\<rparr>\<rparr>,
         (new_panel 3)\<lparr>parent := 0,
                       style := (style (new_panel 3))\<lparr>flex_grow := 1\<rparr>\<rparr>]\<rparr>"
  by (simp add: built_example_def UI_BeginFrame_def UI_BeginFrame_WithTime_def UI_Input_NewFrame_def
        UI_Begin_Panel_With_Id_def UI_NewPanel_def link_and_push_def UI_AddChild_def
        upd_panel_def panel_at_def UI_End_Panel_def set_top_style_def UI_Panel_Set_Size_def
        UI_Panel_Set_Grow_def UI_MAX_PANELS_def zero_context_def new_panel_def Let_def)

lemma built_example_built: "built built_example"
  unfolding built_example_def
  by (intro built.end_panel built.begin_panel_with_id built_setters built_BeginFrame)

lemma built_example_ok: "tree_ok (state built_example)"
  by (rule built_tree_ok [OF built_example_built])

lemma built_example_layout:
  "UI_LayoutPanelTree (state built_example) 0 =
     Some \<lparr>panels =
        [(new_panel 1)\<lparr>first_child := 1, last_child := 2,
                       rect := \<lparr>rx = 0, ry = 0, rw = 300, rh = 50\<rparr>\<rparr>,
         (new_panel 2)\<lparr>parent := 0, next_sibling := 2,
                       style := (style (new_panel 2))\<lparr>pref_w := 100\<rparr>,
                       rect := \<lparr>rx = 0, ry = 0, rw = 100, rh = 50\<rparr>\<rparr>,
         (new_panel 3)\<lparr>parent := 0,
                       style := (style (new_panel 3))\<lparr>flex_grow := 1\<rparr>,
                       rect := \<lparr>rx = 100, ry = 0, rw = 200, rh = 50\<rparr>\<rparr>]\<rparr>"
  by (simp add: built_example_state UI_LayoutPanelTree_def UI_LayoutRow_def panel_at_def
        upd_panel_def new_panel_def child_main_size_def flex_share_all
        Let_def numeral_eq_Suc)

theorem UI_LayoutPanelTree_idempotent_witness:
  "\<exists>t. UI_LayoutPanelTree (state built_example) 0 = Some t \<and>
        UI_LayoutPanelTree t 0 = Some t \<and>
        map rect (panels t) =
          [\<lparr>rx = 0, ry = 0, rw = 300, rh = 50\<rparr>, \<lparr>rx = 0, ry = 0, rw = 100, rh = 50\<rparr>,
           \<lparr>rx = 100, ry = 0, rw = 200, rh = 50\<rparr>]"
proof -
  have ne: "panels (state built_example) \<noteq> []" by (simp add: built_example_state)
  from UI_LayoutPanelTree_idempotent [OF built_example_ok ne] obtain t where
    t: "UI_LayoutPanelTree (state built_example) 0 = Some t" "UI_LayoutPanelTree t 0 = Some t"
    by blast
  from t(1) have "map rect (panels t) =
          [\<lparr>rx = 0, ry = 0, rw = 300, rh = 50\<rparr>, \<lparr>rx = 0, ry = 0, rw = 100, rh = 50\<rparr>,
           \<lparr>rx = 100, ry = 0, rw = 200, rh = 50\<rparr>]"
    unfolding built_example_layout by auto
  with t show ?thesis by (intro exI [of _ t]) simp
qed


section \<open>Properties of the interaction update and of the button\<close>

lemma Set_Hot_simps [simp]:
  "UI_Set_Hot_Widget (UI_Set_Hot_Widget u a) b = UI_Set_Hot_Widget u b"
  "state (UI_Set_Hot_Widget u a) = state u"
  "input (UI_Set_Hot_Widget u a) = input u"
  "hot_widget (interaction (UI_Set_Hot_Widget u a)) = a"
  "UI_Set_Hot_Widget u (hot_widget (interaction u)) = u"
  by (simp_all add: UI_Set_Hot_Widget_def)

lemma panel_at_in_set: "panel_at s i = Some p \<Longrightarrow> p \<in> set (panels s)"
  by (auto simp add: panel_at_def split: if_splits)

lemma interaction_walk_hot:
  assumes inv: "\<And>u i p. hit (UI_Set_Hot_Widget u i) p = hit u p"
  shows "interaction_walk hit n ui idx = Some ui' \<Longrightarrow>
           \<exists>h. ui' = UI_Set_Hot_Widget ui h \<and>
               (h = hot_widget (interaction ui) \<or>
                (\<exists>p \<in> set (panels (state ui)). hit ui p \<and> uid p = h))"
    and "interaction_children hit n ui c = Some ui' \<Longrightarrow>
           \<exists>h. ui' = UI_Set_Hot_Widget ui h \<and>
               (h = hot_widget (interaction ui) \<or>
                (\<exists>p \<in> set (panels (state ui)). hit ui p \<and> uid p = h))"
  using inv
proof (induction hit n ui idx and hit n ui c arbitrary: ui' and ui'
       rule: interaction_walk_interaction_children.induct)
  case (1 hit ui panel_idx)
  then show ?case by simp
next
  case (2 hit n ui panel_idx)
  from "2.prems" obtain p where p: "panel_at (state ui) panel_idx = Some p"
    by (auto split: option.splits)
  let ?u1 = "if hit ui p then UI_Set_Hot_Widget ui (uid p) else ui"
  from "2.prems" p have w: "interaction_children hit n ?u1 (first_child p) = Some ui'" by simp
  from "2.prems" have inv': "\<And>u i p. hit (UI_Set_Hot_Widget u i) p = hit u p" by simp
  from "2.IH" [OF p w inv'] obtain h where
    h: "ui' = UI_Set_Hot_Widget ?u1 h"
       "h = hot_widget (interaction ?u1) \<or> (\<exists>q \<in> set (panels (state ?u1)). hit ?u1 q \<and> uid q = h)"
    by blast
  show ?case
  proof (cases "hit ui p")
    case True
    with h have "ui' = UI_Set_Hot_Widget ui h" by simp
    moreover from h(2) True panel_at_in_set [OF p] inv'
    have "h = hot_widget (interaction ui) \<or> (\<exists>q \<in> set (panels (state ui)). hit ui q \<and> uid q = h)"
      by auto
    ultimately show ?thesis by blast
  next
    case False
    with h show ?thesis by auto
  qed
next
  case (3 hit ui c)
  then show ?case by (auto split: if_splits intro: exI [of _ "hot_widget (interaction ui)"])
next
  case (4 hit n ui c)
  from "4.prems" have inv': "\<And>u i p. hit (UI_Set_Hot_Widget u i) p = hit u p" by simp
  show ?case
  proof (cases "c = -1")
    case True
    with "4.prems" show ?thesis by (auto intro: exI [of _ "hot_widget (interaction ui)"])
  next
    case False
    with "4.prems" obtain ui1 child where
      w: "interaction_walk hit n ui c = Some ui1" and
      ch: "panel_at (state ui1) c = Some child" and
      r: "interaction_children hit n ui1 (next_sibling child) = Some ui'"
      by (auto split: option.splits)
    from "4.IH"(1) [OF False w inv'] obtain h1 where
      h1: "ui1 = UI_Set_Hot_Widget ui h1"
          "h1 = hot_widget (interaction ui) \<or> (\<exists>q \<in> set (panels (state ui)). hit ui q \<and> uid q = h1)"
      by blast
    from "4.IH"(2) [OF False w ch r inv'] obtain h2 where
      h2: "ui' = UI_Set_Hot_Widget ui1 h2"
          "h2 = hot_widget (interaction ui1) \<or> (\<exists>q \<in> set (panels (state ui1)). hit ui1 q \<and> uid q = h2)"
      by blast
    from h1 h2 have "ui' = UI_Set_Hot_Widget ui h2" by simp
    moreover from h1 h2(2) inv'
    have "h2 = hot_widget (interaction ui) \<or> (\<exists>q \<in> set (panels (state ui)). hit ui q \<and> uid q = h2)"
      by auto
    ultimately show ?thesis by blast
  qed
qed

lemma hit_inv:
  "hit_nonresizable (UI_Set_Hot_Widget u i) p = hit_nonresizable u p"
  "hit_resizable (UI_Set_Hot_Widget u i) p = hit_resizable u p"
  by (simp_all add: hit_nonresizable_def hit_resizable_def UI_Is_Hovered_def)

lemma pointer_over_cong:
  assumes "mouse_x (input u) = mouse_x (input v)" "mouse_y (input u) = mouse_y (input v)"
    and "map (\<lambda>p. (uid p, is_label p, rect p, resizable (style p), resize_hitbox_padding (style p)))
           (panels (state u)) =
         map (\<lambda>p. (uid p, is_label p, rect p, resizable (style p), resize_hitbox_padding (style p)))
           (panels (state v))"
  shows "pointer_over u i = pointer_over v i"
proof -
  let ?f = "\<lambda>p. (uid p, is_label p, rect p, resizable (style p), resize_hitbox_padding (style p))"
  let ?Q = "\<lambda>(a, l, r, z, h). a = i \<and>
     ((l = 0 \<and> z = 0 \<and> UI_Is_Point_In_Rect (mouse_x (input v)) (mouse_y (input v)) r \<noteq> 0) \<or>
      (l = 0 \<and> z \<noteq> 0 \<and>
       UI_Is_Point_In_Rect (mouse_x (input v)) (mouse_y (input v)) (UI_Get_Expanded_Rect r h) \<noteq> 0))"
  have "pointer_over w i = (\<exists>t \<in> set (map ?f (panels (state w))). ?Q t)"
    if "mouse_x (input w) = mouse_x (input v)" "mouse_y (input w) = mouse_y (input v)" for w
    using that
    by (auto simp add: pointer_over_def hit_nonresizable_def hit_resizable_def UI_Is_Hovered_def)
  from this [of u] this [of v] assms show ?thesis by simp
qed

lemma apply_size_hits:
  "input (apply_size ui dir idx tid n) = input ui"
  "interaction (apply_size ui dir idx tid n) = interaction ui"
  "map (\<lambda>p. (uid p, is_label p, rect p, resizable (style p), resize_hitbox_padding (style p)))
     (panels (state (apply_size ui dir idx tid n))) =
   map (\<lambda>p. (uid p, is_label p, rect p, resizable (style p), resize_hitbox_padding (style p)))
     (panels (state ui))"
  by (auto simp add: apply_size_def Let_def UI_Set_Size_Override_def upd_panel_def map_update
        list_update_same_conv split: option.splits)

lemma UI_Update_Divider_Resize_hits:
  "input (UI_Update_Divider_Resize ui) = input ui"
  "interaction (UI_Update_Divider_Resize ui) = interaction ui"
  "map (\<lambda>p. (uid p, is_label p, rect p, resizable (style p), resize_hitbox_padding (style p)))
     (panels (state (UI_Update_Divider_Resize ui))) =
   map (\<lambda>p. (uid p, is_label p, rect p, resizable (style p), resize_hitbox_padding (style p)))
     (panels (state ui))"
  by (simp_all add: UI_Update_Divider_Resize_def Let_def apply_size_hits split: prod.splits)

lemma handle_drag_hot:
  "handle_drag_start ui = Some ui' \<Longrightarrow> hot_widget (interaction ui') = hot_widget (interaction ui)"
  "hot_widget (interaction (handle_drag_end ui)) = hot_widget (interaction ui)"
  by (auto simp add: handle_drag_start_def handle_drag_end_def Let_def UI_Set_Active_Widget_def
        UI_Clear_Active_Widget_def split: if_splits option.splits)

lemma UI_Update_Interaction_hot:
  assumes "UI_Update_Interaction prev = Some ui1"
  shows "hot_widget (interaction ui1) = 0 \<or> pointer_over prev (hot_widget (interaction ui1))"
proof -
  let ?d = "UI_Update_Divider_Resize prev"
  let ?u2 = "UI_Set_Hot_Widget ?d 0"
  have u2: "?d\<lparr>interaction := (interaction ?d)\<lparr>hot_widget := 0\<rparr>\<rparr> = ?u2"
    by (simp add: UI_Set_Hot_Widget_def)
  have po: "pointer_over ?u2 i = pointer_over prev i" for i
    by (rule pointer_over_cong) (simp_all add: UI_Update_Divider_Resize_hits)
  let ?W = "if panels (state ?u2) \<noteq> []
         then (case UI_Update_Panel_Interaction_NonResizable ?u2 0 of
                 None \<Rightarrow> None
               | Some ui3 \<Rightarrow> UI_Update_Panel_Interaction_Resizable ui3 0)
         else Some ?u2"
  from assms have c: "(case ?W of None \<Rightarrow> None
      | Some ui4 \<Rightarrow> map_option handle_drag_end (handle_drag_start ui4)) = Some ui1"
    unfolding UI_Update_Interaction_def Let_def u2 .
  then obtain ui4 where w: "?W = Some ui4" by (cases ?W) simp_all
  with c have "map_option handle_drag_end (handle_drag_start ui4) = Some ui1" by simp
  then obtain ui5 where s: "handle_drag_start ui4 = Some ui5" and e: "ui1 = handle_drag_end ui5"
    by (cases "handle_drag_start ui4") auto
  have h4: "hot_widget (interaction ui4) = 0 \<or> pointer_over ?u2 (hot_widget (interaction ui4))"
  proof (cases "panels (state ?u2) \<noteq> []")
    case False
    with w show ?thesis by auto
  next
    case True
    with w obtain ui3 where
      a: "interaction_walk hit_nonresizable (2 * length (panels (state ?u2))) ?u2 0 = Some ui3" and
      b: "interaction_walk hit_resizable (2 * length (panels (state ui3))) ui3 0 = Some ui4"
      by (auto simp add: UI_Update_Panel_Interaction_NonResizable_def
            UI_Update_Panel_Interaction_Resizable_def split: option.splits)
    from interaction_walk_hot(1) [OF hit_inv(1) a] obtain h1 where
      h1: "ui3 = UI_Set_Hot_Widget ?u2 h1"
          "h1 = hot_widget (interaction ?u2) \<or>
           (\<exists>p \<in> set (panels (state ?u2)). hit_nonresizable ?u2 p \<and> uid p = h1)"
      by blast
    from interaction_walk_hot(1) [OF hit_inv(2) b] obtain h2 where
      h2: "ui4 = UI_Set_Hot_Widget ui3 h2"
          "h2 = hot_widget (interaction ui3) \<or>
           (\<exists>p \<in> set (panels (state ui3)). hit_resizable ui3 p \<and> uid p = h2)"
      by blast
    from h1 h2 have "hot_widget (interaction ui4) = h2" by simp
    moreover from h1 h2(2) have "h2 = 0 \<or> pointer_over ?u2 h2"
      by (auto simp add: pointer_over_def hit_inv)
    ultimately show ?thesis by simp
  qed
  from handle_drag_hot(1) [OF s] handle_drag_hot(2) [of ui5] e
  have "hot_widget (interaction ui1) = hot_widget (interaction ui4)" by simp
  with h4 po show ?thesis by simp
qed

lemma builder_interaction:
  "interaction (UI_Begin_Panel_With_Id c i) = interaction c"
  "interaction (UI_Begin_Panel c id_str) = interaction c"
  "interaction (UI_End_Panel c) = interaction c"
  "interaction (set_top_style c f) = interaction c"
  by (simp_all add: UI_Begin_Panel_With_Id_eq UI_Begin_Panel_With_Id_def UI_NewPanel_def
        link_and_push_def UI_End_Panel_def set_top_style_def Generate_frame(3) Let_def
        split: prod.splits)

lemma UI_Label_interaction: "interaction (UI_Label c text_opt col) = interaction c"
  by (simp add: UI_Label_def Let_def builder_interaction UI_Panel_Set_Size_def
        split: option.splits)

lemma UI_Button_interaction: "interaction (fst (UI_Button c t)) = interaction c"
proof -
  obtain u1 i where g: "UI_Generate_Id c t = (u1, i)" by (cases "UI_Generate_Id c t")
  then have u1: "interaction u1 = interaction c" using Generate_frame(3) [of c t] by simp
  show ?thesis
    by (simp add: UI_Button_def g Let_def builder_interaction UI_Label_interaction
          UI_Panel_Set_Size_def UI_Panel_Set_Color_def UI_Panel_Set_Padding_def
          UI_Panel_Set_Direction_def u1)
qed

lemma frame_path_hot:
  "frame_path ui c \<Longrightarrow> hot_widget (interaction c) = hot_widget (interaction ui)"
proof (induction rule: frame_path.induct)
  case (begin_frame ui c w h dt)
  then show ?case by (simp add: UI_BeginFrame_WithTime_def UI_Input_NewFrame_def Let_def)
qed (simp_all add: UI_Input_ProcessMouseMove_def UI_Input_ProcessMouseButton_def
       UI_Input_EndFrame_def builder_interaction UI_Label_interaction UI_Button_interaction)

lemma UI_Button_clicked:
  "(snd (UI_Button ctx t) \<noteq> 0) =
     (mouse_released (input ctx) UI_MOUSE_LEFT \<noteq> 0 \<and>
      active_widget_prev (interaction ctx) = snd (UI_Generate_Id ctx t) \<and>
      hot_widget (interaction ctx) = snd (UI_Generate_Id ctx t))"
  using Generate_frame(3,4) [of ctx t]
  by (auto simp add: UI_Button_def Let_def UI_Is_Mouse_Released_def split: prod.splits)

text \<open>
  Claim C5, as amended. \<open>UI_Button\<close> reports a click exactly when the left button's
  release flag is set, the widget recorded as active in the previous frame
  (\<open>active_widget_prev\<close>) is the button's id and the hot widget is that id too. The hot
  widget the button reads is the one the last interaction update left, that of the
  frame before. So when, at that update, the pointer was outside the bounds of every
  panel that carries the button's id, and the id is not 0 (the value that stands for
  no widget), the button reports no click, whatever was active.
\<close>

theorem UI_Button_click:
  "(snd (UI_Button ctx t) \<noteq> 0) =
     (mouse_released (input ctx) UI_MOUSE_LEFT \<noteq> 0 \<and>
      active_widget_prev (interaction ctx) = snd (UI_Generate_Id ctx t) \<and>
      hot_widget (interaction ctx) = snd (UI_Generate_Id ctx t)) \<and>
   (UI_Update_Interaction prev = Some ui1 \<and> frame_path ui1 ctx \<and>
    snd (UI_Generate_Id ctx t) \<noteq> 0 \<and> \<not> pointer_over prev (snd (UI_Generate_Id ctx t)) \<longrightarrow>
      snd (UI_Button ctx t) = 0)"
proof (intro conjI impI)
  show "(snd (UI_Button ctx t) \<noteq> 0) =
     (mouse_released (input ctx) UI_MOUSE_LEFT \<noteq> 0 \<and>
      active_widget_prev (interaction ctx) = snd (UI_Generate_Id ctx t) \<and>
      hot_widget (interaction ctx) = snd (UI_Generate_Id ctx t))"
    by (rule UI_Button_clicked)
next
  assume a: "UI_Update_Interaction prev = Some ui1 \<and> frame_path ui1 ctx \<and>
    snd (UI_Generate_Id ctx t) \<noteq> 0 \<and> \<not> pointer_over prev (snd (UI_Generate_Id ctx t))"
  then have "hot_widget (interaction ctx) = hot_widget (interaction ui1)"
    by (simp add: frame_path_hot)
  moreover from a UI_Update_Interaction_hot [of prev ui1]
  have "hot_widget (interaction ui1) \<noteq> snd (UI_Generate_Id ctx t)" by auto
  ultimately show "snd (UI_Button ctx t) = 0" using UI_Button_clicked [of ctx t] by auto
qed

lemma click_hashes:
  "UI_HashString (Some ''root'') = 2090695081"
  "UI_HashString (Some ''OK'') = 5862591"
  "UI_HashString (Some ''OK##0'') = 230574581"
  by (simp_all add: UI_HashString_def char_val_def)

lemma click_step_b:
  assumes u2: "state u2 = \<lparr>panels = [(new_panel 2090695081)\<lparr>
              rect := \<lparr>rx = 0, ry = 0, rw = 300, rh = 100\<rparr>,
              style := (style (new_panel 2090695081))\<lparr>direction := 1\<rparr>\<rparr>]\<rparr>" "parent_stack u2 = [0]"
    "used_ids u2 = [(2090695081, 0), (5862591, 0)]" "measure_text u2 = Some click_measure"
  shows "state (UI_Begin_Panel_With_Id u2 5862591) = \<lparr>panels =
        [(new_panel 2090695081)\<lparr>first_child := 1, last_child := 1,
            rect := \<lparr>rx = 0, ry = 0, rw = 300, rh = 100\<rparr>,
            style := (style (new_panel 2090695081))\<lparr>direction := 1\<rparr>\<rparr>,
         (new_panel 5862591)\<lparr>parent := 0\<rparr>]\<rparr>"
    "parent_stack (UI_Begin_Panel_With_Id u2 5862591) = [0, 1]"
    "used_ids (UI_Begin_Panel_With_Id u2 5862591) = [(2090695081, 0), (5862591, 0)]"
    "measure_text (UI_Begin_Panel_With_Id u2 5862591) = Some click_measure"
    using u2
    by (simp_all add: UI_Begin_Panel_With_Id_def UI_NewPanel_def link_and_push_def
          UI_MAX_PANELS_def UI_AddChild_def upd_panel_def panel_at_def Let_def new_panel_def)

lemma set_top_style_all:
  "state (set_top_style ctx f) =
     (if parent_stack ctx = [] then state ctx
      else upd_panel (state ctx) (last (parent_stack ctx)) (\<lambda>q. q\<lparr>style := f (style q)\<rparr>))"
  "parent_stack (set_top_style ctx f) = parent_stack ctx"
  "used_ids (set_top_style ctx f) = used_ids ctx"
  "measure_text (set_top_style ctx f) = measure_text ctx"
  by (simp_all add: set_top_style_def)

lemma click_step_c:
  assumes b: "state b = \<lparr>panels =
        [(new_panel 2090695081)\<lparr>first_child := 1, last_child := 1,
            rect := \<lparr>rx = 0, ry = 0, rw = 300, rh = 100\<rparr>,
            style := (style (new_panel 2090695081))\<lparr>direction := 1\<rparr>\<rparr>,
         (new_panel 5862591)\<lparr>parent := 0\<rparr>]\<rparr>"
    "parent_stack b = [0, 1]"
    "used_ids b = [(2090695081, 0), (5862591, 0)]"
    "measure_text b = Some click_measure"
  shows "state (UI_Panel_Set_Direction (UI_Panel_Set_Padding
       (UI_Panel_Set_Color (UI_Panel_Set_Size b (-1) 30) bg) 8 4 8 4) 0) = \<lparr>panels =
        [(new_panel 2090695081)\<lparr>first_child := 1, last_child := 1,
            rect := \<lparr>rx = 0, ry = 0, rw = 300, rh = 100\<rparr>,
            style := (style (new_panel 2090695081))\<lparr>direction := 1\<rparr>\<rparr>,
         (new_panel 5862591)\<lparr>parent := 0,
            style := (style (new_panel 5862591))\<lparr>pref_h := 30, color := bg,
               pad_l := 8, pad_t := 4, pad_r := 8, pad_b := 4\<rparr>\<rparr>]\<rparr>"
    "parent_stack (UI_Panel_Set_Direction (UI_Panel_Set_Padding
       (UI_Panel_Set_Color (UI_Panel_Set_Size b (-1) 30) bg) 8 4 8 4) 0) = [0, 1]"
    "used_ids (UI_Panel_Set_Direction (UI_Panel_Set_Padding
       (UI_Panel_Set_Color (UI_Panel_Set_Size b (-1) 30) bg) 8 4 8 4) 0) = [(2090695081, 0), (5862591, 0)]"
    "measure_text (UI_Panel_Set_Direction (UI_Panel_Set_Padding
       (UI_Panel_Set_Color (UI_Panel_Set_Size b (-1) 30) bg) 8 4 8 4) 0) = Some click_measure"
  using b
  by (simp_all add: UI_Panel_Set_Direction_def UI_Panel_Set_Padding_def UI_Panel_Set_Color_def
        UI_Panel_Set_Size_def set_top_style_all upd_panel_def new_panel_def)

lemma click_step_g:
  assumes "used_ids b = [(2090695081, 0), (5862591, 0)]"
  shows "snd (UI_Generate_Id b ''OK'') = 230574581"
    and "used_ids (fst (UI_Generate_Id b ''OK'')) = [(2090695081, 0), (5862591, 1)]"
proof -
  have bump: "bump_used_id (used_ids b) 5862591 = Some ([(2090695081, 0), (5862591, 1)], 0)"
    by (simp add: assms)
  have u: "unique_str ''OK'' 0 = ''OK##0''" by (simp add: unique_str_short)
  show "snd (UI_Generate_Id b ''OK'') = 230574581"
    and "used_ids (fst (UI_Generate_Id b ''OK'')) = [(2090695081, 0), (5862591, 1)]"
    by (simp_all add: UI_Generate_Id_def click_hashes Let_def bump u)
qed

lemma click_step_l:
  assumes b: "state b = \<lparr>panels =
        [(new_panel 2090695081)\<lparr>first_child := 1, last_child := 1,
            rect := \<lparr>rx = 0, ry = 0, rw = 300, rh = 100\<rparr>,
            style := (style (new_panel 2090695081))\<lparr>direction := 1\<rparr>\<rparr>,
         (new_panel 5862591)\<lparr>parent := 0,
            style := (style (new_panel 5862591))\<lparr>pref_h := 30, color := bg,
               pad_l := 8, pad_t := 4, pad_r := 8, pad_b := 4\<rparr>\<rparr>]\<rparr>"
    "parent_stack b = [0, 1]"
    "used_ids b = [(2090695081, 0), (5862591, 0)]"
    "measure_text b = Some click_measure"
  shows "state (UI_Label b (Some ''OK'') tc) = click_tree bg tc"
proof -
  let ?g = "fst (UI_Generate_Id b ''OK'')"
  have g: "state ?g = state b" "parent_stack ?g = [0, 1]"
    using b(2) by (simp_all add: Generate_frame(1,2))
  let ?p = "UI_Begin_Panel b ''OK''"
  have p: "state ?p = \<lparr>panels =
        [(new_panel 2090695081)\<lparr>first_child := 1, last_child := 1,
            rect := \<lparr>rx = 0, ry = 0, rw = 300, rh = 100\<rparr>,
            style := (style (new_panel 2090695081))\<lparr>direction := 1\<rparr>\<rparr>,
         (new_panel 5862591)\<lparr>parent := 0, first_child := 2, last_child := 2,
            style := (style (new_panel 5862591))\<lparr>pref_h := 30, color := bg,
               pad_l := 8, pad_t := 4, pad_r := 8, pad_b := 4\<rparr>\<rparr>,
         (new_panel 230574581)\<lparr>parent := 1\<rparr>]\<rparr>"
      "parent_stack ?p = [0, 1, 2]"
    unfolding UI_Begin_Panel_With_Id_eq click_step_g(1) [OF b(3)]
    using g b(1)
    by (simp_all add: UI_Begin_Panel_With_Id_def UI_NewPanel_def link_and_push_def
          UI_MAX_PANELS_def UI_AddChild_def upd_panel_def panel_at_def Let_def new_panel_def)
  have m: "measure_text b = Some click_measure" by (rule b(4))
  show ?thesis
    using p m
    by (simp add: UI_Label_def Let_def click_measure_def UI_Panel_Set_Size_def set_top_style_all
          set_top_style_def upd_panel_def UI_End_Panel_def MAX_UI_TEXT_LENGTH_def new_panel_def
          click_tree_def)
qed

lemma click_app_state:
  assumes "state ui = \<lparr>panels = []\<rparr>" "parent_stack ui = []" "used_ids ui = []"
    and "measure_text ui = Some click_measure" "screen_w ui = 300" "screen_h ui = 100"
  shows "\<exists>bg tc. state (click_app ui) = click_tree bg tc"
proof -
  let ?c = "click_button_ctx ui"
  have c: "state ?c = \<lparr>panels = [(new_panel 2090695081)\<lparr>
              rect := \<lparr>rx = 0, ry = 0, rw = 300, rh = 100\<rparr>,
              style := (style (new_panel 2090695081))\<lparr>direction := 1\<rparr>\<rparr>]\<rparr>"
    "parent_stack ?c = [0]" "used_ids ?c = [(2090695081, 0)]"
    "measure_text ?c = Some click_measure"
    using assms
    by (simp_all add: click_button_ctx_def UI_Begin_Panel_def UI_Generate_Id_def click_hashes
          UI_NewPanel_def link_and_push_def UI_MAX_PANELS_def upd_panel_def
          UI_Panel_Set_Direction_def set_top_style_def Let_def new_panel_def)
  obtain u1 i where g: "UI_Generate_Id ?c ''OK'' = (u1, i)" by (cases "UI_Generate_Id ?c ''OK''")
  then have i: "i = 5862591" and u1: "u1 = ?c\<lparr>used_ids := [(2090695081, 0), (5862591, 0)]\<rparr>"
    using c(3) by (auto simp add: UI_Generate_Id_def click_hashes Let_def)
  define u2 where "u2 = (if active_widget_prev (interaction u1) = i \<and>
       UI_Is_Mouse_Released u1 UI_MOUSE_LEFT \<noteq> 0 \<and> hot_widget (interaction u1) = i
     then u1\<lparr>last_button_clicked := take (MAX_UI_TEXT_LENGTH - 1) ''OK''\<rparr> else u1)"
  define bg :: "32 word" where "bg = (if active_widget_prev (interaction u1) = i then 0xFF1A5FB4
     else if hot_widget (interaction u1) = i then 0xFF3584E4 else 0xFF2A2A2E)"
  define tc :: "32 word" where "tc = (if active_widget_prev (interaction u1) = i then 0xFFFFFFFF
     else if hot_widget (interaction u1) = i then 0xFFFFFFFF else 0xFFAAAAAA)"
  have e: "fst (UI_Button ?c ''OK'') =
     UI_End_Panel (UI_Label (UI_Panel_Set_Direction (UI_Panel_Set_Padding
       (UI_Panel_Set_Color (UI_Panel_Set_Size (UI_Begin_Panel_With_Id u2 i) (-1) 30) bg) 8 4 8 4) 0)
       (Some ''OK'') tc)"
    unfolding UI_Button_def g Let_def prod.case fst_conv u2_def bg_def tc_def ..
  have u2: "state u2 = \<lparr>panels = [(new_panel 2090695081)\<lparr>
              rect := \<lparr>rx = 0, ry = 0, rw = 300, rh = 100\<rparr>,
              style := (style (new_panel 2090695081))\<lparr>direction := 1\<rparr>\<rparr>]\<rparr>"
    "parent_stack u2 = [0]"
    "used_ids u2 = [(2090695081, 0), (5862591, 0)]" "measure_text u2 = Some click_measure"
    using c by (simp_all add: u2_def u1)
  note b = click_step_b [OF u2]
  note s = click_step_c [OF b, of bg]
  have "state (UI_End_Panel (fst (UI_Button ?c ''OK''))) = click_tree bg tc"
    unfolding e i using click_step_l [OF s, of tc] by (simp add: UI_End_Panel_def)
  then show ?thesis unfolding click_app_def by blast
qed

lemma click_layout: "UI_LayoutPanelTree (click_tree bg tc) 0 = Some (click_laid bg tc)"
  by (simp add: click_tree_def click_laid_def UI_LayoutPanelTree_def UI_LayoutRow_def
        UI_LayoutColumn_def panel_at_def upd_panel_def new_panel_def child_main_size_def
        Let_def numeral_eq_Suc)

lemma click_emit: "UI_EmitPanels (click_laid bg tc) (Some l) 0 \<noteq> None"
  by (simp add: click_laid_def UI_EmitPanels_def panel_at_def new_panel_def numeral_eq_Suc)

lemma click_walks:
  assumes st: "state u = click_laid bg tc"
    and m: "mouse_x (input u) = x" "mouse_y (input u) = y" "0 \<le> x" "x < 300" "0 \<le> y" "y < 100"
  shows "UI_Update_Panel_Interaction_NonResizable u 0 =
           Some (UI_Set_Hot_Widget u (if y < 30 then 5862591 else 2090695081))"
    and "UI_Update_Panel_Interaction_Resizable (UI_Set_Hot_Widget u h) 0 =
           Some (UI_Set_Hot_Widget u h)"
  using m
  by (simp_all add: UI_Update_Panel_Interaction_NonResizable_def
        UI_Update_Panel_Interaction_Resizable_def st click_laid_def numeral_eq_Suc panel_at_def
        hit_nonresizable_def hit_resizable_def UI_Is_Hovered_def UI_Is_Point_In_Rect_def
        new_panel_def)

lemma click_update:
  assumes st: "state u = click_laid bg tc"
    and m: "mouse_x (input u) = x" "mouse_y (input u) = y" "0 \<le> x" "x < 300" "0 \<le> y" "y < 100"
    and d: "dragging_divider (interaction u) = 0"
  shows "\<exists>u'. UI_Update_Interaction u = Some u' \<and> state u' = state u \<and> input u' = input u \<and>
           hot_widget (interaction u') = (if y < 30 then 5862591 else 2090695081) \<and>
           active_widget (interaction u') =
             (if mouse_released (input u) UI_MOUSE_LEFT \<noteq> 0 then 0
              else if mouse_pressed (input u) UI_MOUSE_LEFT \<noteq> 0
              then (if y < 30 then 5862591 else 2090695081)
              else active_widget (interaction u)) \<and>
           active_widget_prev (interaction u') = active_widget_prev (interaction u) \<and>
           dragging_divider (interaction u') = 0"
proof -
  let ?H = "if y < 30 then 5862591 else 2090695081 :: 32 word"
  have r: "UI_Update_Divider_Resize u = u" using d by (simp add: UI_Update_Divider_Resize_def)
  have u2: "u\<lparr>interaction := (interaction u)\<lparr>hot_widget := 0\<rparr>\<rparr> = UI_Set_Hot_Widget u 0"
    by (simp add: UI_Set_Hot_Widget_def)
  have ne: "panels (state (UI_Set_Hot_Widget u 0)) \<noteq> []" by (simp add: st click_laid_def)
  have w1: "UI_Update_Panel_Interaction_NonResizable (UI_Set_Hot_Widget u 0) 0 =
      Some (UI_Set_Hot_Widget u ?H)"
    using click_walks(1) [of "UI_Set_Hot_Widget u 0" bg tc x y] st m by simp
  have w2: "UI_Update_Panel_Interaction_Resizable (UI_Set_Hot_Widget u ?H) 0 =
      Some (UI_Set_Hot_Widget u ?H)"
    by (rule click_walks(2) [OF st m])
  have f: "UI_Find_Panel_By_Id (click_laid bg tc) ?H = (if y < 30 then 1 else 0)"
    by (simp add: UI_Find_Panel_By_Id_def click_laid_def new_panel_def)
  have z: "resizable (style (panels (click_laid bg tc) ! nat (if y < 30 then 1 else 0))) = 0"
    by (simp add: click_laid_def new_panel_def)
  have s: "handle_drag_start (UI_Set_Hot_Widget u ?H) =
      Some (if mouse_pressed (input u) UI_MOUSE_LEFT \<noteq> 0
            then UI_Set_Active_Widget (UI_Set_Hot_Widget u ?H) ?H else UI_Set_Hot_Widget u ?H)"
    using f z by (simp add: handle_drag_start_def UI_Is_Mouse_Pressed_def st Let_def)
  have res: "UI_Update_Interaction u =
      Some (handle_drag_end (if mouse_pressed (input u) UI_MOUSE_LEFT \<noteq> 0
            then UI_Set_Active_Widget (UI_Set_Hot_Widget u ?H) ?H else UI_Set_Hot_Widget u ?H))"
    unfolding UI_Update_Interaction_def Let_def r u2 using ne w1 w2 s by simp
  show ?thesis
    unfolding res using d
    by (simp add: handle_drag_end_def UI_Is_Mouse_Released_def UI_Set_Active_Widget_def
          UI_Set_Hot_Widget_def UI_Clear_Active_Widget_def)
qed

lemma builder_input:
  "input (UI_Begin_Panel_With_Id c i) = input c"
  "input (UI_Begin_Panel c id_str) = input c"
  "input (UI_End_Panel c) = input c"
  "input (set_top_style c f) = input c"
  by (simp_all add: UI_Begin_Panel_With_Id_eq UI_Begin_Panel_With_Id_def UI_NewPanel_def
        link_and_push_def UI_End_Panel_def set_top_style_def Generate_frame(4) Let_def
        split: prod.splits)

lemma UI_Label_input: "input (UI_Label c text_opt col) = input c"
  by (simp add: UI_Label_def Let_def builder_input UI_Panel_Set_Size_def split: option.splits)

lemma UI_Button_input: "input (fst (UI_Button c t)) = input c"
proof -
  obtain u1 i where g: "UI_Generate_Id c t = (u1, i)" by (cases "UI_Generate_Id c t")
  then have u1: "input u1 = input c" using Generate_frame(4) [of c t] by simp
  show ?thesis
    by (simp add: UI_Button_def g Let_def builder_input UI_Label_input
          UI_Panel_Set_Size_def UI_Panel_Set_Color_def UI_Panel_Set_Padding_def
          UI_Panel_Set_Direction_def u1)
qed

lemma click_app_fields:
  "interaction (click_app u) = interaction u" "input (click_app u) = input u"
  by (simp_all add: click_app_def click_button_ctx_def builder_interaction UI_Button_interaction
        builder_input UI_Button_input UI_Panel_Set_Direction_def)

lemma RenderI:
  assumes "UI_BeginFrame_WithTime (ui\<lparr>measure_text := Some m\<rparr>) w h dt = (ui1, l)"
    and "build (ui1\<lparr>current_fps := fps\<rparr>) = ui2"
    and "panels (state ui2) \<noteq> []" "UI_LayoutPanelTree (state ui2) 0 = Some s3"
    and "UI_Update_Interaction (ui2\<lparr>state := s3\<rparr>) = Some ui4"
    and "panels (state ui4) \<noteq> []" "UI_EmitPanels (state ui4) (Some l) 0 = Some drawn"
  shows "Render build m fps ui w h dt = Some (UI_Input_EndFrame ui4, drawn)"
  using assms by (simp add: Render_def)

lemma click_frame_result:
  assumes d: "dragging_divider (interaction ui) = 0"
    and m: "mouse_x (input ui) = x" "mouse_y (input ui) = y" "0 \<le> x" "x < 300" "0 \<le> y" "y < 100"
  shows "\<exists>prev u' bg tc. click_frame ui = Some (UI_Input_EndFrame u') \<and>
      UI_Update_Interaction prev = Some u' \<and>
      state prev = click_laid bg tc \<and> input prev = input (UI_Input_NewFrame ui) \<and>
      state u' = click_laid bg tc \<and> input u' = input (UI_Input_NewFrame ui) \<and>
      hot_widget (interaction u') = (if y < 30 then 5862591 else 2090695081) \<and>
      active_widget (interaction u') =
        (if mouse_down (input ui) UI_MOUSE_LEFT = 0 \<and> mouse_down (input_prev ui) UI_MOUSE_LEFT \<noteq> 0
         then 0
         else if mouse_down (input ui) UI_MOUSE_LEFT \<noteq> 0 \<and> mouse_down (input_prev ui) UI_MOUSE_LEFT = 0
         then (if y < 30 then 5862591 else 2090695081)
         else active_widget (interaction ui)) \<and>
      dragging_divider (interaction u') = 0"
proof -
  let ?b = "(fst (UI_BeginFrame_WithTime (ui\<lparr>measure_text := Some click_measure\<rparr>) 300 100 16))
              \<lparr>current_fps := 60\<rparr>"
  have bf: "UI_BeginFrame_WithTime (ui\<lparr>measure_text := Some click_measure\<rparr>) 300 100 16 =
      (fst (UI_BeginFrame_WithTime (ui\<lparr>measure_text := Some click_measure\<rparr>) 300 100 16),
       \<lparr>rectangles = [], texts = []\<rparr>)"
    by (simp add: UI_BeginFrame_WithTime_def)
  have b: "state ?b = \<lparr>panels = []\<rparr>" "parent_stack ?b = []" "used_ids ?b = []"
    "measure_text ?b = Some click_measure" "screen_w ?b = 300" "screen_h ?b = 100"
    by (simp_all add: UI_BeginFrame_WithTime_def UI_Input_NewFrame_def Let_def)
  let ?fr = "fst (UI_BeginFrame_WithTime (ui\<lparr>measure_text := Some click_measure\<rparr>) 300 100 16)"
  have bi: "input ?fr = input (UI_Input_NewFrame ui)"
    "dragging_divider (interaction ?fr) = 0"
    "active_widget (interaction ?fr) = active_widget (interaction ui)"
    using d by (simp_all add: UI_BeginFrame_WithTime_def UI_Input_NewFrame_def Let_def)
  from click_app_state [OF b] obtain bg tc where t: "state (click_app ?b) = click_tree bg tc"
    by blast
  have ne: "panels (state (click_app ?b)) \<noteq> []" by (simp add: t click_tree_def)
  let ?u = "(click_app ?b)\<lparr>state := click_laid bg tc\<rparr>"
  have iu: "input ?u = input (UI_Input_NewFrame ui)" by (simp add: click_app_fields bi)
  have um: "mouse_x (input ?u) = x" "mouse_y (input ?u) = y"
    using m(1,2) by (simp_all add: iu UI_Input_NewFrame_def Let_def)
  have ud: "dragging_divider (interaction ?u) = 0" by (simp add: click_app_fields bi)
  have us: "state ?u = click_laid bg tc" by simp
  from click_update [OF us um m(3-6) ud] obtain u' where
    u': "UI_Update_Interaction ?u = Some u'" "state u' = state ?u" "input u' = input ?u"
      "hot_widget (interaction u') = (if y < 30 then 5862591 else 2090695081)"
      "active_widget (interaction u') =
             (if mouse_released (input ?u) UI_MOUSE_LEFT \<noteq> 0 then 0
              else if mouse_pressed (input ?u) UI_MOUSE_LEFT \<noteq> 0
              then (if y < 30 then 5862591 else 2090695081)
              else active_widget (interaction ?u))"
      "dragging_divider (interaction u') = 0"
    by blast
  have ne': "panels (state u') \<noteq> []" by (simp add: u'(2) click_laid_def)
  from click_emit [of bg tc "\<lparr>rectangles = [], texts = []\<rparr>"] obtain drawn where
    dr: "UI_EmitPanels (state u') (Some \<lparr>rectangles = [], texts = []\<rparr>) 0 = Some drawn"
    by (auto simp add: u'(2))
  have ly: "UI_LayoutPanelTree (state (click_app ?b)) 0 = Some (click_laid bg tc)"
    by (simp only: t click_layout)
  have "Render click_app click_measure 60 ui 300 100 16 = Some (UI_Input_EndFrame u', drawn)"
    by (rule RenderI [where build = click_app and fps = 60, OF bf refl ne ly u'(1) ne' dr])
  then have c: "click_frame ui = Some (UI_Input_EndFrame u')" by (simp add: click_frame_def)
  have a: "active_widget (interaction u') =
        (if mouse_down (input ui) UI_MOUSE_LEFT = 0 \<and> mouse_down (input_prev ui) UI_MOUSE_LEFT \<noteq> 0
         then 0
         else if mouse_down (input ui) UI_MOUSE_LEFT \<noteq> 0 \<and> mouse_down (input_prev ui) UI_MOUSE_LEFT = 0
         then (if y < 30 then 5862591 else 2090695081)
         else active_widget (interaction ui))"
    using u'(5) by (simp add: iu click_app_fields bi UI_Input_NewFrame_def Let_def)
  have "state u' = click_laid bg tc" "input u' = input (UI_Input_NewFrame ui)"
    using u'(2,3) iu by simp_all
  with c u'(1) us iu u'(4) a u'(6) show ?thesis by blast
qed

lemma click_pressed_result:
  "\<exists>c bg tc. click_pressed = Some c \<and> state c = click_laid bg tc \<and>
     mouse_x (input c) = 10 \<and> mouse_y (input c) = 10 \<and>
     mouse_down (input c) UI_MOUSE_LEFT = 1 \<and> input_prev c = input c \<and>
     hot_widget (interaction c) = 5862591 \<and> active_widget (interaction c) = 5862591 \<and>
     dragging_divider (interaction c) = 0"
proof -
  let ?s0 = "UI_Input_ProcessMouseMove zero_context 10 10"
  have "\<exists>prev u' bg tc. click_frame ?s0 = Some (UI_Input_EndFrame u') \<and>
      UI_Update_Interaction prev = Some u' \<and>
      state prev = click_laid bg tc \<and> input prev = input (UI_Input_NewFrame ?s0) \<and>
      state u' = click_laid bg tc \<and> input u' = input (UI_Input_NewFrame ?s0) \<and>
      hot_widget (interaction u') = (if (10::int) < 30 then 5862591 else 2090695081) \<and>
      active_widget (interaction u') =
        (if mouse_down (input ?s0) UI_MOUSE_LEFT = 0 \<and> mouse_down (input_prev ?s0) UI_MOUSE_LEFT \<noteq> 0
         then 0
         else if mouse_down (input ?s0) UI_MOUSE_LEFT \<noteq> 0 \<and> mouse_down (input_prev ?s0) UI_MOUSE_LEFT = 0
         then (if (10::int) < 30 then 5862591 else 2090695081)
         else active_widget (interaction ?s0)) \<and>
      dragging_divider (interaction u') = 0"
    by (rule click_frame_result [where x = 10 and y = 10])
      (simp_all add: UI_Input_ProcessMouseMove_def zero_context_def zero_interaction_def zero_input_def)
  then obtain u1 where
    f1: "click_frame ?s0 = Some (UI_Input_EndFrame u1)"
      "input u1 = input (UI_Input_NewFrame ?s0)"
      "dragging_divider (interaction u1) = 0"
    by blast
  let ?c1 = "UI_Input_EndFrame u1"
  let ?p1 = "UI_Input_ProcessMouseButton ?c1 UI_MOUSE_LEFT 1"
  have p1: "mouse_x (input ?p1) = 10" "mouse_y (input ?p1) = 10"
    "mouse_down (input ?p1) UI_MOUSE_LEFT = 1" "mouse_down (input_prev ?p1) UI_MOUSE_LEFT = 0"
    "dragging_divider (interaction ?p1) = 0"
    using f1(2,3)
    by (simp_all add: UI_Input_ProcessMouseButton_def UI_Input_EndFrame_def UI_Input_NewFrame_def
          UI_Input_ProcessMouseMove_def zero_context_def zero_input_def Let_def)
  have "\<exists>prev u' bg tc. click_frame ?p1 = Some (UI_Input_EndFrame u') \<and>
      UI_Update_Interaction prev = Some u' \<and>
      state prev = click_laid bg tc \<and> input prev = input (UI_Input_NewFrame ?p1) \<and>
      state u' = click_laid bg tc \<and> input u' = input (UI_Input_NewFrame ?p1) \<and>
      hot_widget (interaction u') = (if (10::int) < 30 then 5862591 else 2090695081) \<and>
      active_widget (interaction u') =
        (if mouse_down (input ?p1) UI_MOUSE_LEFT = 0 \<and> mouse_down (input_prev ?p1) UI_MOUSE_LEFT \<noteq> 0
         then 0
         else if mouse_down (input ?p1) UI_MOUSE_LEFT \<noteq> 0 \<and> mouse_down (input_prev ?p1) UI_MOUSE_LEFT = 0
         then (if (10::int) < 30 then 5862591 else 2090695081)
         else active_widget (interaction ?p1)) \<and>
      dragging_divider (interaction u') = 0"
    by (rule click_frame_result [OF p1(5) p1(1,2)]) simp_all
  then obtain u2 bg tc where
    f2: "click_frame ?p1 = Some (UI_Input_EndFrame u2)"
      "state u2 = click_laid bg tc" "input u2 = input (UI_Input_NewFrame ?p1)"
      "hot_widget (interaction u2) = 5862591"
      "active_widget (interaction u2) = 5862591"
      "dragging_divider (interaction u2) = 0"
    using p1(3,4) by auto
  have "click_pressed = Some (UI_Input_EndFrame u2)"
    by (simp add: click_pressed_def f1(1) f2(1))
  moreover have "mouse_x (input (UI_Input_EndFrame u2)) = 10"
    "mouse_y (input (UI_Input_EndFrame u2)) = 10"
    "mouse_down (input (UI_Input_EndFrame u2)) UI_MOUSE_LEFT = 1"
    using f2(3) p1(1-3) by (simp_all add: UI_Input_EndFrame_def UI_Input_NewFrame_def Let_def)
  ultimately show ?thesis
    using f2(2,4,5,6) by (intro exI [of _ "UI_Input_EndFrame u2"] exI [of _ bg] exI [of _ tc])
      (simp add: UI_Input_EndFrame_def)
qed

lemma UI_Button_flag:
  "snd (UI_Button ctx t) =
     (if mouse_released (input ctx) UI_MOUSE_LEFT \<noteq> 0 \<and>
         active_widget_prev (interaction ctx) = snd (UI_Generate_Id ctx t) \<and>
         hot_widget (interaction ctx) = snd (UI_Generate_Id ctx t) then 1 else 0)"
  using Generate_frame(3,4) [of ctx t]
  by (auto simp add: UI_Button_def Let_def UI_Is_Mouse_Released_def split: prod.splits)

lemma click_button_ctx_fields:
  "snd (UI_Generate_Id (click_button_ctx (click_begin e)) ''OK'') = 5862591"
  "input (click_button_ctx (click_begin e)) = input (UI_Input_NewFrame e)"
  "hot_widget (interaction (click_button_ctx (click_begin e))) = hot_widget (interaction e)"
  "active_widget_prev (interaction (click_button_ctx (click_begin e))) = active_widget (interaction e)"
proof -
  have "used_ids (click_button_ctx (click_begin e)) = [(2090695081, 0)]"
    by (simp add: click_button_ctx_def click_begin_def UI_BeginFrame_WithTime_def
          UI_Input_NewFrame_def UI_Begin_Panel_def UI_Generate_Id_def click_hashes
          UI_NewPanel_def link_and_push_def UI_MAX_PANELS_def upd_panel_def
          UI_Panel_Set_Direction_def set_top_style_def Let_def)
  then show "snd (UI_Generate_Id (click_button_ctx (click_begin e)) ''OK'') = 5862591"
    by (simp add: UI_Generate_Id_def click_hashes Let_def)
  show "input (click_button_ctx (click_begin e)) = input (UI_Input_NewFrame e)"
    "hot_widget (interaction (click_button_ctx (click_begin e))) = hot_widget (interaction e)"
    "active_widget_prev (interaction (click_button_ctx (click_begin e))) = active_widget (interaction e)"
    by (simp_all add: click_button_ctx_def UI_Panel_Set_Direction_def builder_input
          builder_interaction click_begin_def UI_BeginFrame_WithTime_def UI_Input_NewFrame_def
          Let_def)
qed

lemma click_flag_eq:
  "click_flag e =
     (if mouse_down (input e) UI_MOUSE_LEFT = 0 \<and> mouse_down (input_prev e) UI_MOUSE_LEFT \<noteq> 0 \<and>
         active_widget (interaction e) = 5862591 \<and> hot_widget (interaction e) = 5862591
      then 1 else 0)"
  unfolding click_flag_def UI_Button_flag click_button_ctx_fields
  by (simp add: UI_Input_NewFrame_def Let_def)

text \<open>
  Claim C5 as stated fails. The button is pressed with the pointer on it; before the
  next frame the pointer leaves the button's rectangle and the left button is released.
  In the frame of the release the pointer is outside the button's bounds, the button
  was the active widget, and \<open>UI_Button\<close> reports the click: the hot widget it reads
  is still the one of the frame before.
\<close>

theorem UI_Button_click_after_leave:
  "map_option
     (\<lambda>c. (UI_Is_Hovered (click_leave_release c) (rect (panels (state c) ! 1)),
           uid (panels (state c) ! 1), active_widget (interaction c),
           click_flag (click_leave_release c)))
     click_pressed = Some (0, 5862591, 5862591, 1)"
proof -
  from click_pressed_result obtain c bg tc where
    c: "click_pressed = Some c" "state c = click_laid bg tc"
       "mouse_down (input c) UI_MOUSE_LEFT = 1" "input_prev c = input c"
       "hot_widget (interaction c) = 5862591" "active_widget (interaction c) = 5862591"
    by blast
  have h: "UI_Is_Hovered (click_leave_release c) (rect (panels (state c) ! 1)) = 0"
    by (simp add: c(2) click_laid_def UI_Is_Hovered_def UI_Is_Point_In_Rect_def
          click_leave_release_def UI_Input_ProcessMouseButton_def UI_Input_ProcessMouseMove_def)
  have u: "uid (panels (state c) ! 1) = 5862591"
    by (simp add: c(2) click_laid_def new_panel_def)
  have f: "click_flag (click_leave_release c) = 1"
    using c(3-6)
    by (simp add: click_flag_eq click_leave_release_def UI_Input_ProcessMouseButton_def
          UI_Input_ProcessMouseMove_def)
  show ?thesis using h u f by (simp add: c(1,6))
qed

text \<open>
  The same press followed by a frame in which the pointer is off the button, and only
  then by the release: the interaction update of that frame saw the pointer outside
  the button, and no click is reported. Released on the button, the click is reported.
\<close>

theorem UI_Button_click_witness:
  "Option.bind click_pressed
     (\<lambda>c. map_option (\<lambda>c3. click_flag (UI_Input_ProcessMouseButton c3 UI_MOUSE_LEFT 0))
            (click_frame (UI_Input_ProcessMouseMove c 10 80))) = Some 0 \<and>
   map_option (\<lambda>c. click_flag (UI_Input_ProcessMouseButton c UI_MOUSE_LEFT 0)) click_pressed = Some 1"
proof -
  from click_pressed_result obtain c bg tc where
    c: "click_pressed = Some c" "state c = click_laid bg tc"
       "mouse_down (input c) UI_MOUSE_LEFT = 1" "input_prev c = input c"
       "hot_widget (interaction c) = 5862591" "active_widget (interaction c) = 5862591"
       "dragging_divider (interaction c) = 0"
    by blast
  let ?m = "UI_Input_ProcessMouseMove c 10 80"
  have m: "dragging_divider (interaction ?m) = 0" "mouse_x (input ?m) = 10" "mouse_y (input ?m) = 80"
    using c(7) by (simp_all add: UI_Input_ProcessMouseMove_def)
  have "\<exists>prev u' bg tc. click_frame ?m = Some (UI_Input_EndFrame u') \<and>
      UI_Update_Interaction prev = Some u' \<and>
      state prev = click_laid bg tc \<and> input prev = input (UI_Input_NewFrame ?m) \<and>
      state u' = click_laid bg tc \<and> input u' = input (UI_Input_NewFrame ?m) \<and>
      hot_widget (interaction u') = (if (80::int) < 30 then 5862591 else 2090695081) \<and>
      active_widget (interaction u') =
        (if mouse_down (input ?m) UI_MOUSE_LEFT = 0 \<and> mouse_down (input_prev ?m) UI_MOUSE_LEFT \<noteq> 0
         then 0
         else if mouse_down (input ?m) UI_MOUSE_LEFT \<noteq> 0 \<and> mouse_down (input_prev ?m) UI_MOUSE_LEFT = 0
         then (if (80::int) < 30 then 5862591 else 2090695081)
         else active_widget (interaction ?m)) \<and>
      dragging_divider (interaction u') = 0"
    by (rule click_frame_result [OF m]) simp_all
  then obtain prev u3 bg3 tc3 where
    f3: "click_frame ?m = Some (UI_Input_EndFrame u3)"
      "UI_Update_Interaction prev = Some u3"
      "state prev = click_laid bg3 tc3" "input prev = input (UI_Input_NewFrame ?m)"
    by blast
  let ?e = "UI_Input_ProcessMouseButton (UI_Input_EndFrame u3) UI_MOUSE_LEFT 0"
  let ?ctx = "click_button_ctx (click_begin ?e)"
  have p: "frame_path u3 ?ctx"
    unfolding click_button_ctx_def click_begin_def UI_Panel_Set_Direction_def
    by (rule frame_path.set_style [OF frame_path.begin_panel [OF frame_path.fps
          [OF frame_path.begin_frame [OF frame_path.measure [OF frame_path.mouse_button
          [OF frame_path.end_frame [OF frame_path.start]]]]]]])
  have i: "snd (UI_Generate_Id ?ctx ''OK'') = 5862591" by (rule click_button_ctx_fields(1))
  have o: "\<not> pointer_over prev 5862591"
    by (simp add: pointer_over_def f3(3,4) click_laid_def hit_nonresizable_def hit_resizable_def
          UI_Is_Hovered_def UI_Is_Point_In_Rect_def UI_Input_NewFrame_def
          UI_Input_ProcessMouseMove_def Let_def new_panel_def)
  from UI_Button_click [of ?ctx "''OK''" prev u3] f3(2) p i o
  have "snd (UI_Button ?ctx ''OK'') = 0" by simp
  then have a: "click_flag ?e = 0" by (simp add: click_flag_def)
  let ?r = "UI_Input_ProcessMouseButton c UI_MOUSE_LEFT 0"
  from UI_Button_click [of "click_button_ctx (click_begin ?r)" "''OK''" prev u3] c(3-6)
  have "snd (UI_Button (click_button_ctx (click_begin ?r)) ''OK'') \<noteq> 0"
    by (simp add: click_button_ctx_fields UI_Input_NewFrame_def UI_Input_ProcessMouseButton_def
          Let_def)
  then have b: "click_flag ?r = 1"
    by (simp add: click_flag_def UI_Button_flag split: if_splits)
  show ?thesis using a b by (simp add: c(1) f3(1))
qed

end
